theory Spec2Isabelle
  imports Complex_Main
begin

section \<open>JavaScript strings\<close>

text \<open>
  A JavaScript string is a sequence of UTF-16 code units. A code unit is modelled as a
  natural number (the program never does arithmetic on one), so every string the program
  can see is a value of \<open>jsstring\<close>. \<open>lit\<close> writes an ASCII literal of the source.
\<close>

type_synonym jsstring = "nat list"

definition lit :: "string \<Rightarrow> jsstring" where
  "lit s = map of_char s"

text \<open>
  The class \<^verbatim>\<open>\s\<close> of a regular expression and the code units removed by
  \<^verbatim>\<open>String.prototype.trim\<close> are the same set: WhiteSpace and LineTerminator of
  ECMAScript (TAB, LF, VT, FF, CR, SP, NBSP, U+1680, U+2000 to U+200A, U+2028, U+2029,
  U+202F, U+205F, U+3000, U+FEFF).
\<close>

definition isWhiteSpace :: "nat \<Rightarrow> bool" where
  "isWhiteSpace c =
     (c = 9 \<or> c = 10 \<or> c = 11 \<or> c = 12 \<or> c = 13 \<or> c = 32 \<or> c = 160 \<or> c = 5760 \<or>
      (8192 \<le> c \<and> c \<le> 8202) \<or> c = 8232 \<or> c = 8233 \<or> c = 8239 \<or> c = 8287 \<or>
      c = 12288 \<or> c = 65279)"

definition trim :: "jsstring \<Rightarrow> jsstring" where
  "trim s = rev (dropWhile isWhiteSpace (rev (dropWhile isWhiteSpace s)))"

text \<open>
  Case mapping of one code unit, on the ASCII letters. The regular expressions of the
  program carry the flag \<^verbatim>\<open>i\<close> without \<^verbatim>\<open>u\<close>: there a code unit of 128 or more is
  never identified with an ASCII one, so an ASCII pattern character matches exactly its two
  cases. \<^verbatim>\<open>toUpperCase\<close> is only applied to a captured run of \<^verbatim>\<open>[A-Za-z_]\<close>, and
  \<^verbatim>\<open>toLowerCase\<close> to the keys of the topic buckets, which are the ASCII tags of
  \<open>TOPIC_CATEGORIES\<close>; on other code units the model leaves the unit as it is.
\<close>

definition upperUnit :: "nat \<Rightarrow> nat" where
  "upperUnit c = (if 97 \<le> c \<and> c \<le> 122 then c - 32 else c)"

definition lowerUnit :: "nat \<Rightarrow> nat" where
  "lowerUnit c = (if 65 \<le> c \<and> c \<le> 90 then c + 32 else c)"

definition toUpperCase :: "jsstring \<Rightarrow> jsstring" where
  "toUpperCase s = map upperUnit s"

definition toLowerCase :: "jsstring \<Rightarrow> jsstring" where
  "toLowerCase s = map lowerUnit s"

text \<open>\<^verbatim>\<open>Array.prototype.join\<close> on an array of strings.\<close>

fun join :: "jsstring \<Rightarrow> jsstring list \<Rightarrow> jsstring" where
  "join sep [] = []"
| "join sep [x] = x"
| "join sep (x # y # ys) = x @ sep @ join sep (y # ys)"

section \<open>Errors and constants\<close>

text \<open>
  \<open>TypeError\<close> is the error JavaScript raises on a property access or a call on
  \<^verbatim>\<open>undefined\<close> or \<^verbatim>\<open>null\<close>; \<open>External n\<close> is an error raised by a collaborator
  (the tokenizer import, the language model, the speech service, the file system, the
  muxer), told apart by \<open>n\<close>.
\<close>

datatype error = TypeError | External nat

definition TOPIC_CATEGORIES :: "jsstring list" where
  "TOPIC_CATEGORIES =
     [lit ''TECH_NEWS'', lit ''BUSINESS'', lit ''SECURITY'', lit ''PRODUCT_UPDATES'',
      lit ''INDUSTRY_NEWS'', lit ''EDUCATIONAL'', lit ''OTHER'']"

definition maxTokensPerChunk :: nat where
  "maxTokensPerChunk = 15000"

section \<open>Parsing the model's response\<close>

text \<open>
  \<^verbatim>\<open>result.match(re)\<close> without the flag \<^verbatim>\<open>g\<close> tries the pattern at every start index
  from the left, the end of the string included, and returns the first match.
  \<open>regex_search\<close> is that search for a matcher \<open>m\<close> that tries the pattern at the start
  of its argument.
\<close>

fun regex_search :: "(jsstring \<Rightarrow> 'a option) \<Rightarrow> jsstring \<Rightarrow> 'a option" where
  "regex_search m [] = m []"
| "regex_search m (c # cs) =
     (case m (c # cs) of Some r \<Rightarrow> Some r | None \<Rightarrow> regex_search m cs)"

text \<open>A literal of ASCII characters under the flag \<^verbatim>\<open>i\<close>; the result is the rest of the input.\<close>

fun ci_prefix :: "jsstring \<Rightarrow> jsstring \<Rightarrow> jsstring option" where
  "ci_prefix [] s = Some s"
| "ci_prefix (p # ps) [] = None"
| "ci_prefix (p # ps) (c # cs) =
     (if upperUnit p = upperUnit c then ci_prefix ps cs else None)"

text \<open>The class \<^verbatim>\<open>[A-Z_]\<close> under the flag \<^verbatim>\<open>i\<close>.\<close>

definition isCategoryUnit :: "nat \<Rightarrow> bool" where
  "isCategoryUnit c = ((65 \<le> c \<and> c \<le> 90) \<or> (97 \<le> c \<and> c \<le> 122) \<or> c = 95)"

text \<open>
  \<^verbatim>\<open>/CATEGORY:\s*([A-Z_]+)/i\<close> at one start index; the result is capture group 1.
  The greedy \<^verbatim>\<open>\s*\<close> takes the whole run of white space, and giving part of it back
  never helps, since a white-space unit is not in the class.
\<close>

definition category_at :: "jsstring \<Rightarrow> jsstring option" where
  "category_at s =
     (case ci_prefix (lit ''CATEGORY:'') s of
        None \<Rightarrow> None
      | Some r \<Rightarrow>
          (let g = takeWhile isCategoryUnit (dropWhile isWhiteSpace r)
           in if g = [] then None else Some g))"

definition categoryMatch :: "jsstring \<Rightarrow> jsstring option" where
  "categoryMatch result = regex_search category_at result"

text \<open>
  \<^verbatim>\<open>/SUMMARY:\s*([\s\S]+)/i\<close> at one start index; the result is capture group 1. The
  group needs one code unit at least and then runs to the end of the input. When only
  white space follows the marker, the greedy \<^verbatim>\<open>\s*\<close> gives its last unit back to the
  group; when nothing follows the marker there is no match.
\<close>

definition summary_at :: "jsstring \<Rightarrow> jsstring option" where
  "summary_at s =
     (case ci_prefix (lit ''SUMMARY:'') s of
        None \<Rightarrow> None
      | Some r \<Rightarrow>
          (if r = [] then None
           else (let g = dropWhile isWhiteSpace r
                 in if g = [] then Some [last r] else Some g)))"

definition summaryMatch :: "jsstring \<Rightarrow> jsstring option" where
  "summaryMatch result = regex_search summary_at result"

text \<open>
  The two expressions both summarising functions build from the matches:
  \<^verbatim>\<open>categoryMatch ? categoryMatch[1].trim().toUpperCase() : 'OTHER'\<close> and
  \<^verbatim>\<open>summaryMatch ? summaryMatch[1].trim() : result\<close>.
\<close>

definition topicOf :: "jsstring \<Rightarrow> jsstring" where
  "topicOf result =
     (case categoryMatch result of Some g \<Rightarrow> toUpperCase (trim g) | None \<Rightarrow> lit ''OTHER'')"

definition summaryOf :: "jsstring \<Rightarrow> jsstring" where
  "summaryOf result =
     (case summaryMatch result of Some g \<Rightarrow> trim g | None \<Rightarrow> result)"

text \<open>
  \<^verbatim>\<open>`${finalSummary}\n${result}`\<close>: the template literal renders a \<^verbatim>\<open>null\<close>
  content as the text \<^verbatim>\<open>null\<close>.
\<close>

definition appendReply :: "jsstring \<Rightarrow> jsstring option \<Rightarrow> jsstring" where
  "appendReply finalSummary result =
     finalSummary @ [10] @ (case result of None \<Rightarrow> lit ''null'' | Some r \<Rightarrow> r)"

text \<open>
  A response holds a marker when the marker's text, in either case of each letter, starts
  at some index: that is what the two patterns look for before anything else.
\<close>

definition containsMarker :: "jsstring \<Rightarrow> jsstring \<Rightarrow> bool" where
  "containsMarker marker s =
     (case regex_search (ci_prefix marker) s of None \<Rightarrow> False | Some r \<Rightarrow> True)"

section \<open>Summarising one newsletter\<close>

record summary_result =
  topic :: jsstring
  summary :: jsstring

text \<open>
  A request to the chat-completion service: the content of the system message and of the
  user message. The model name, the temperature and the token limit are the same constants
  in every call and are left out.
\<close>

record chat_request =
  system_content :: jsstring
  user_content :: jsstring

text \<open>
  The language model is a collaborator whose answers the program cannot predict: it is a
  parameter, a function of the number of calls made before and of the request. \<open>Inl e\<close>
  is a call that throws (a rejected request, or a response without \<^verbatim>\<open>choices[0]\<close>);
  \<open>Inr c\<close> is \<^verbatim>\<open>response.choices[0].message.content\<close>, with \<open>None\<close> for
  \<^verbatim>\<open>null\<close>. The calls made are returned beside the result, each with its reply.
\<close>

type_synonym llm = "nat \<Rightarrow> chat_request \<Rightarrow> error + jsstring option"

type_synonym calls = "(chat_request \<times> (error + jsstring option)) list"

definition single_prompt :: jsstring where
  "single_prompt =
     lit ''Analyze and summarize the newsletter content. First determine the most relevant category from: ''
     @ join (lit '', '') TOPIC_CATEGORIES
     @ lit ''. Then provide a concise summary focusing on key announcements and insights. Format the response as:''
     @ [10] @ lit ''          CATEGORY: [chosen category]''
     @ [10] @ lit ''          SUMMARY: [your summary]''"

definition processSingleChunk :: "llm \<Rightarrow> jsstring \<Rightarrow> (error + summary_result) \<times> calls" where
  "processSingleChunk openai content =
     (let request = \<lparr>system_content = single_prompt, user_content = content\<rparr>;
          reply = openai 0 request
      in case reply of
           Inl e \<Rightarrow> (Inl e, [(request, reply)])
         | Inr None \<Rightarrow> (Inl TypeError, [(request, reply)])
         | Inr (Some result) \<Rightarrow>
             (Inr \<lparr>topic = topicOf result, summary = summaryOf result\<rparr>,
              [(request, reply)]))"

text \<open>The tokenizer module, as \<^verbatim>\<open>await import('gpt-tokenizer')\<close> gives it.\<close>

record tokenizer =
  encode :: "jsstring \<Rightarrow> nat list"
  decode :: "nat list \<Rightarrow> jsstring"

definition first_prompt :: jsstring where
  "first_prompt =
     lit ''Analyze the first part of this newsletter content. Determine the most relevant category from: ''
     @ join (lit '', '') TOPIC_CATEGORIES
     @ lit '' and begin summarizing key points. Format as:''
     @ [10] @ lit ''             CATEGORY: [chosen category]''
     @ [10] @ lit ''             SUMMARY: [your summary]''"

definition next_prompt :: "bool \<Rightarrow> jsstring \<Rightarrow> jsstring" where
  "next_prompt isLastChunk finalSummary =
     lit ''Continue analyzing the '' @ (if isLastChunk then lit ''final'' else lit ''next'')
     @ lit '' part of the newsletter. Incorporate this into the previous summary. Previous summary context:''
     @ [10] @ lit ''             '' @ finalSummary"

text \<open>
  The loop over the chunks, from the token index \<open>i\<close>, with the running summary, the topic
  and the calls made so far. \<^verbatim>\<open>tokens.slice(i, i + maxTokensPerChunk)\<close> is
  \<open>take maxTokensPerChunk (drop i tokens)\<close>. In the first chunk a \<^verbatim>\<open>null\<close> content
  makes \<^verbatim>\<open>result.match\<close> throw.
\<close>

function chunk_loop ::
  "tokenizer \<Rightarrow> llm \<Rightarrow> nat list \<Rightarrow> nat \<Rightarrow> jsstring \<Rightarrow> jsstring \<Rightarrow> calls
     \<Rightarrow> (error + summary_result) \<times> calls" where
  "chunk_loop encoding openai tokens i finalSummary currentTopic made =
     (if i < length tokens then
        (let chunkTokens = take maxTokensPerChunk (drop i tokens);
             chunkContent = decode encoding chunkTokens;
             isFirstChunk = (i = 0);
             isLastChunk = (i + maxTokensPerChunk \<ge> length tokens);
             systemPrompt = (if isFirstChunk then first_prompt
                             else next_prompt isLastChunk finalSummary);
             request = \<lparr>system_content = systemPrompt, user_content = chunkContent\<rparr>;
             reply = openai (length made) request
         in case reply of
              Inl e \<Rightarrow> (Inl e, made @ [(request, reply)])
            | Inr result \<Rightarrow>
                (if isFirstChunk then
                   (case result of
                      None \<Rightarrow> (Inl TypeError, made @ [(request, reply)])
                    | Some r \<Rightarrow>
                        chunk_loop encoding openai tokens (i + maxTokensPerChunk)
                          (summaryOf r) (topicOf r) (made @ [(request, reply)]))
                 else
                   chunk_loop encoding openai tokens (i + maxTokensPerChunk)
                     (appendReply finalSummary result) currentTopic
                     (made @ [(request, reply)])))
      else (Inr \<lparr>topic = currentTopic, summary = finalSummary\<rparr>, made))"
  by pat_completeness auto
termination
  by (relation "measure (\<lambda>(encoding, openai, tokens, i, rest). length tokens - i)")
     (auto simp: maxTokensPerChunk_def)

declare chunk_loop.simps [simp del]

text \<open>
  \<open>imported\<close> is the outcome of importing the tokenizer; a failed import is caught and
  thrown again, as is every error of the body. The second parameter of the source,
  \<^verbatim>\<open>source\<close>, is never read and is left out.
\<close>

definition summarizeNewsletter ::
  "error + tokenizer \<Rightarrow> llm \<Rightarrow> jsstring \<Rightarrow> (error + summary_result) \<times> calls" where
  "summarizeNewsletter imported openai emailContent =
     (case imported of
        Inl e \<Rightarrow> (Inl e, [])
      | Inr encoding \<Rightarrow>
          (let tokens = encode encoding emailContent
           in if length tokens \<le> maxTokensPerChunk
              then processSingleChunk openai emailContent
              else chunk_loop encoding openai tokens 0 [] [] []))"

section \<open>Collecting the summaries by topic\<close>

text \<open>
  A fetched message. \<^verbatim>\<open>subject\<close> and \<^verbatim>\<open>from\<close> come from
  \<^verbatim>\<open>headers.find(...)?.value\<close> and are \<^verbatim>\<open>undefined\<close> (\<open>None\<close>) when the header is
  missing. The date is carried along and never read by the functions modelled here.
\<close>

record email =
  email_id :: jsstring
  email_subject :: "jsstring option"
  email_from :: "jsstring option"
  email_body :: jsstring
  email_date :: int

record item =
  item_subject :: "jsstring option"
  item_from :: "jsstring option"
  item_date :: int
  item_summary :: jsstring

text \<open>
  \<^verbatim>\<open>summariesByTopic\<close> is an object with string keys, none of them an array index, so
  \<^verbatim>\<open>Object.entries\<close> lists it in the order the keys were added: an association list.
\<close>

type_synonym buckets = "(jsstring \<times> item list) list"

definition initial_buckets :: buckets where
  "initial_buckets = map (\<lambda>topic. (topic, [])) TOPIC_CATEGORIES"

text \<open>
  \<^verbatim>\<open>summariesByTopic[topic].push(x)\<close>. For a topic that is no key of the object the
  lookup gives \<^verbatim>\<open>undefined\<close>, or a member of \<^verbatim>\<open>Object.prototype\<close> that has no
  \<^verbatim>\<open>push\<close>, and the call throws a TypeError.
\<close>

definition push :: "buckets \<Rightarrow> jsstring \<Rightarrow> item \<Rightarrow> error + buckets" where
  "push summariesByTopic t x =
     (case map_of summariesByTopic t of
        None \<Rightarrow> Inl TypeError
      | Some summaries \<Rightarrow>
          Inr (map (\<lambda>(k, v). if k = t then (k, v @ [x]) else (k, v)) summariesByTopic))"

text \<open>
  The loop of \<^verbatim>\<open>runEnhancedSummarizer\<close> over the newsletters. Each message comes with
  the result \<^verbatim>\<open>summarizeNewsletter\<close> returned for it; a call of
  \<^verbatim>\<open>summarizeNewsletter\<close> or \<^verbatim>\<open>markEmailAsRead\<close> that throws ends the whole run and
  leaves no buckets behind.
\<close>

fun newsletter_loop :: "buckets \<Rightarrow> (email \<times> summary_result) list \<Rightarrow> error + buckets" where
  "newsletter_loop summariesByTopic [] = Inr summariesByTopic"
| "newsletter_loop summariesByTopic ((email, result) # rest) =
     (case push summariesByTopic (topic result)
             \<lparr>item_subject = email_subject email, item_from = email_from email,
              item_date = email_date email, item_summary = summary result\<rparr> of
        Inl e \<Rightarrow> Inl e
      | Inr summariesByTopic' \<Rightarrow> newsletter_loop summariesByTopic' rest)"

definition aggregate :: "(email \<times> summary_result) list \<Rightarrow> error + buckets" where
  "aggregate newsletters = newsletter_loop initial_buckets newsletters"

definition item_of :: "email \<times> summary_result \<Rightarrow> item" where
  "item_of p =
     \<lparr>item_subject = email_subject (fst p), item_from = email_from (fst p),
      item_date = email_date (fst p), item_summary = summary (snd p)\<rparr>"

section \<open>The speech script\<close>

datatype speaker = host | guest

record script_line =
  line_speaker :: speaker
  line_text :: jsstring

text \<open>
  \<^verbatim>\<open>summary.split(/(?<=\.)\s+/)\<close>. The separator is a run of white space right after a
  period; the run is taken whole and dropped, and the text up to it is one part. The
  arguments are the part collected so far, whether the code unit before is a period, and
  the text still to read. The empty string gives one empty part.
\<close>

function split_parts :: "jsstring \<Rightarrow> bool \<Rightarrow> jsstring \<Rightarrow> jsstring list" where
  "split_parts part afterPeriod [] = [part]"
| "split_parts part afterPeriod (c # cs) =
     (if afterPeriod \<and> isWhiteSpace c
      then part # split_parts [] False (dropWhile isWhiteSpace cs)
      else split_parts (part @ [c]) (c = 46) cs)"
  by pat_completeness auto
termination
  by (relation "measure (\<lambda>(part, afterPeriod, s). length s)")
     (auto simp: less_Suc_eq_le length_dropWhile_le)

definition split_sentences :: "jsstring \<Rightarrow> jsstring list" where
  "split_sentences s = split_parts [] False s"


text \<open>
  The lines of one item at position \<open>index\<close> of a bucket of \<open>n\<close> items. A template
  literal renders \<^verbatim>\<open>undefined\<close> as the text \<^verbatim>\<open>undefined\<close>.
\<close>

definition item_lines :: "nat \<Rightarrow> nat \<times> item \<Rightarrow> script_line list" where
  "item_lines n entry =
     (let index = fst entry; item = snd entry;
          summaryParts = split_sentences (item_summary item)
      in [\<lparr>line_speaker = guest,
           line_text = lit ''From ''
             @ (case item_from item of None \<Rightarrow> lit ''undefined'' | Some f \<Rightarrow> f)
             @ lit '', we have ''
             @ (case summaryParts of [] \<Rightarrow> lit ''undefined'' | p # ps \<Rightarrow> p)\<rparr>]
         @ (if length summaryParts > 1
            then [\<lparr>line_speaker = host,
                   line_text = lit ''That's interesting! What else did they mention?''\<rparr>,
                  \<lparr>line_speaker = guest,
                   line_text = join (lit '' '') (drop 1 summaryParts)\<rparr>]
            else [])
         @ (if int index < int n - 1
            then [\<lparr>line_speaker = host,
                   line_text = lit ''What other updates do we have in this area?''\<rparr>]
            else []))"

definition topic_lines :: "jsstring \<times> item list \<Rightarrow> script_line list" where
  "topic_lines entry =
     (let topic = fst entry; summaries = snd entry;
          topicName = map (\<lambda>c. if c = 95 then 32 else c) (toLowerCase topic)
      in \<lparr>line_speaker = host,
          line_text = lit ''Let's dive into '' @ topicName
            @ lit ''. What are the key updates in this area?''\<rparr>
         # concat (map (item_lines (length summaries)) (enumerate 0 summaries)))"

text \<open>\<open>timeNow\<close> is the local time of day as \<^verbatim>\<open>toLocaleTimeString\<close> renders it.\<close>

definition createSpeechScript :: "jsstring \<Rightarrow> buckets \<Rightarrow> script_line list" where
  "createSpeechScript timeNow summariesByTopic =
     [\<lparr>line_speaker = host,
       line_text = lit ''Welcome to your daily newsletter roundup! It's '' @ timeNow
         @ lit '', and I'm here with our expert analyst to break down today's key stories.''\<rparr>,
      \<lparr>line_speaker = guest,
       line_text = lit ''Thanks for having me! I've reviewed all the newsletters, and we've got some interesting developments to discuss.''\<rparr>]
     @ concat (map topic_lines
                 (filter (\<lambda>entry. length (snd entry) > 0) summariesByTopic))
     @ [\<lparr>line_speaker = host,
         line_text = lit ''That wraps up our newsletter summary for today. Any final thoughts?''\<rparr>,
        \<lparr>line_speaker = guest,
         line_text = lit ''Thanks for breaking this down with me. Remember to check the email summary for more details on any stories that caught your interest.''\<rparr>,
        \<lparr>line_speaker = host,
         line_text = lit ''Thanks for listening, and we'll catch you in the next summary!''\<rparr>]"

section \<open>The audio pipeline\<close>

record voice =
  languageCode :: jsstring
  voice_name :: jsstring
  ssmlGender :: jsstring

definition VOICE_CONFIGS :: "speaker \<Rightarrow> voice" where
  "VOICE_CONFIGS s =
     (case s of
        host \<Rightarrow> \<lparr>languageCode = lit ''en-US'', voice_name = lit ''en-US-Neural2-D'',
                 ssmlGender = lit ''MALE''\<rparr>
      | guest \<Rightarrow> \<lparr>languageCode = lit ''en-US'', voice_name = lit ''en-US-Neural2-F'',
                  ssmlGender = lit ''FEMALE''\<rparr>)"

text \<open>A request to the speech service; the encoding is the constant \<^verbatim>\<open>MP3\<close>.\<close>

record tts_request =
  input_text :: jsstring
  tts_voice :: voice
  speakingRate :: real
  pitch :: real

type_synonym bytes = "nat list"

text \<open>
  The collaborators of the pipeline, as parameters: \<open>None\<close> of an \<open>error option\<close> is a
  call that returns, \<open>Some e\<close> one that throws \<open>e\<close>. The speech service answers the
  call number \<open>index\<close>; the muxer reads the input files and gives the merged audio, or
  emits its \<^verbatim>\<open>error\<close> event.
\<close>

record audio_env =
  cwd :: jsstring
  mkdir :: "jsstring \<Rightarrow> error option"
  synthesizeSpeech :: "nat \<Rightarrow> tts_request \<Rightarrow> error + bytes"
  writeFile :: "jsstring \<Rightarrow> bytes \<Rightarrow> error option"
  ffmpeg :: "(jsstring \<rightharpoonup> bytes) \<Rightarrow> jsstring list \<Rightarrow> error + bytes"
  unlink :: "jsstring \<Rightarrow> error option"

text \<open>
  What the pipeline does to the outside, in the order it does it; a write is recorded with
  the path and the content it is called with.
\<close>

datatype event =
    Synthesize tts_request
  | WriteFile jsstring bytes
  | Concat "jsstring list" nat jsstring
  | Unlink jsstring
  | Warn jsstring error

text \<open>
  \<^verbatim>\<open>path.join\<close> of a normalised directory without a trailing separator and a file
  name, on a POSIX system.
\<close>

definition path_join :: "jsstring \<Rightarrow> jsstring \<Rightarrow> jsstring" where
  "path_join dir file = dir @ [47] @ file"

text \<open>A non-negative integer in a template literal: its decimal digits.\<close>

function decimal :: "nat \<Rightarrow> jsstring" where
  "decimal n = (if n < 10 then [48 + n] else decimal (n div 10) @ [48 + n mod 10])"
  by pat_completeness auto
termination
  by (relation "measure id") auto

declare decimal.simps [simp del]

definition segment_path :: "jsstring \<Rightarrow> nat \<Rightarrow> jsstring" where
  "segment_path audioDir index =
     path_join audioDir (lit ''segment_'' @ decimal index @ lit ''.mp3'')"

definition tts_request_of :: "script_line \<Rightarrow> tts_request" where
  "tts_request_of segment =
     \<lparr>input_text = line_text segment,
      tts_voice = VOICE_CONFIGS (line_speaker segment),
      speakingRate = (if line_speaker segment = host then 1.1 else 1.0),
      pitch = (if line_speaker segment = host then 1 else 0.9)\<rparr>"

text \<open>
  The loop over \<^verbatim>\<open>speechScript.entries()\<close>, from \<open>index\<close>, with the paths collected so
  far, the files on disk and the events so far.
\<close>

fun synth_loop ::
  "audio_env \<Rightarrow> jsstring \<Rightarrow> nat \<Rightarrow> script_line list \<Rightarrow> jsstring list
     \<Rightarrow> (jsstring \<rightharpoonup> bytes) \<Rightarrow> event list
     \<Rightarrow> (error + jsstring list) \<times> (jsstring \<rightharpoonup> bytes) \<times> event list" where
  "synth_loop env audioDir index [] audioPaths files evs = (Inr audioPaths, files, evs)"
| "synth_loop env audioDir index (segment # rest) audioPaths files evs =
     (let request = tts_request_of segment
      in case synthesizeSpeech env index request of
           Inl e \<Rightarrow> (Inl e, files, evs @ [Synthesize request])
         | Inr audioContent \<Rightarrow>
             (let segmentPath = segment_path audioDir index
              in case writeFile env segmentPath audioContent of
                   Some e \<Rightarrow>
                     (Inl e, files,
                      evs @ [Synthesize request, WriteFile segmentPath audioContent])
                 | None \<Rightarrow>
                     synth_loop env audioDir (index + 1) rest (audioPaths @ [segmentPath])
                       (files(segmentPath \<mapsto> audioContent))
                       (evs @ [Synthesize request, WriteFile segmentPath audioContent])))"

text \<open>The handler of the muxer's \<^verbatim>\<open>end\<close> event: the clean-up of the segment files.\<close>

fun unlink_loop ::
  "audio_env \<Rightarrow> jsstring list \<Rightarrow> (jsstring \<rightharpoonup> bytes) \<Rightarrow> event list
     \<Rightarrow> (jsstring \<rightharpoonup> bytes) \<times> event list" where
  "unlink_loop env [] files evs = (files, evs)"
| "unlink_loop env (audioPath # rest) files evs =
     (case unlink env audioPath of
        None \<Rightarrow> unlink_loop env rest (files(audioPath := None)) (evs @ [Unlink audioPath])
      | Some err \<Rightarrow>
          unlink_loop env rest files (evs @ [Unlink audioPath, Warn audioPath err]))"

text \<open>
  \<open>today\<close> is \<^verbatim>\<open>new Date().toISOString().split('T')[0]\<close>. The result is the path of the
  final audio or the error thrown, with the files on disk afterwards and the events.
\<close>

definition generateAudioSummary ::
  "audio_env \<Rightarrow> jsstring \<Rightarrow> jsstring \<Rightarrow> buckets \<Rightarrow> (jsstring \<rightharpoonup> bytes)
     \<Rightarrow> (error + jsstring) \<times> (jsstring \<rightharpoonup> bytes) \<times> event list" where
  "generateAudioSummary env timeNow today summariesByTopic files =
     (let speechScript = createSpeechScript timeNow summariesByTopic;
          audioDir = path_join (cwd env) (lit ''audio'')
      in case mkdir env audioDir of
           Some e \<Rightarrow> (Inl e, files, [])
         | None \<Rightarrow>
             (case synth_loop env audioDir 0 speechScript [] files [] of
                (Inl e, files1, evs1) \<Rightarrow> (Inl e, files1, evs1)
              | (Inr audioPaths, files1, evs1) \<Rightarrow>
                  (let finalAudioPath =
                         path_join audioDir
                           (lit ''newsletter-summary-'' @ today @ lit ''.mp3'');
                       evs2 = evs1 @ [Concat audioPaths (length audioPaths) finalAudioPath]
                   in case ffmpeg env files1 audioPaths of
                        Inl err \<Rightarrow> (Inl err, files1, evs2)
                      | Inr merged \<Rightarrow>
                          (case unlink_loop env audioPaths
                                  (files1(finalAudioPath \<mapsto> merged)) evs2 of
                             (files2, evs3) \<Rightarrow> (Inr finalAudioPath, files2, evs3)))))"

text \<open>Projections of the events, for stating what a run did.\<close>

fun synthesized :: "event list \<Rightarrow> tts_request list" where
  "synthesized [] = []"
| "synthesized (Synthesize r # evs) = r # synthesized evs"
| "synthesized (e # evs) = synthesized evs"

fun concat_inputs :: "event list \<Rightarrow> jsstring list list" where
  "concat_inputs [] = []"
| "concat_inputs (Concat inputs n out # evs) = inputs # concat_inputs evs"
| "concat_inputs (e # evs) = concat_inputs evs"

fun unlinked :: "event list \<Rightarrow> jsstring list" where
  "unlinked [] = []"
| "unlinked (Unlink p # evs) = p # unlinked evs"
| "unlinked (e # evs) = unlinked evs"

fun written :: "event list \<Rightarrow> (jsstring \<times> bytes) list" where
  "written [] = []"
| "written (WriteFile p a # evs) = (p, a) # written evs"
| "written (e # evs) = written evs"

fun warned :: "event list \<Rightarrow> jsstring list" where
  "warned [] = []"
| "warned (Warn p e # evs) = p # warned evs"
| "warned (e # evs) = warned evs"

text \<open>
  Names for what \<open>generateAudioSummary\<close> computes on its way: the audio directory, the
  path of the final audio, the paths of the first \<open>n\<close> segment files, and the files on
  disk once every line of the script is synthesised and written.
\<close>

definition audioDir_of :: "audio_env \<Rightarrow> jsstring" where
  "audioDir_of env = path_join (cwd env) (lit ''audio'')"

definition finalAudioPath_of :: "audio_env \<Rightarrow> jsstring \<Rightarrow> jsstring" where
  "finalAudioPath_of env today =
     path_join (audioDir_of env) (lit ''newsletter-summary-'' @ today @ lit ''.mp3'')"

definition segment_paths :: "audio_env \<Rightarrow> nat \<Rightarrow> jsstring list" where
  "segment_paths env n = map (segment_path (audioDir_of env)) [0..<n]"

definition files_after_synthesis ::
  "audio_env \<Rightarrow> script_line list \<Rightarrow> (jsstring \<rightharpoonup> bytes) \<Rightarrow> (jsstring \<rightharpoonup> bytes)" where
  "files_after_synthesis env script files =
     fst (snd (synth_loop env (audioDir_of env) 0 script [] files []))"

text \<open>
  What \<open>generateAudioSummary\<close> does once the \<open>n\<close> segments are written, with the files
  on disk then, the events of the synthesis and the events of the clean-up: the muxer runs
  on the segment paths, and its outcome decides between the error and the clean-up.
\<close>

definition mux_and_clean ::
  "audio_env \<Rightarrow> jsstring \<Rightarrow> nat \<Rightarrow> (jsstring \<rightharpoonup> bytes) \<Rightarrow> event list \<Rightarrow> event list
     \<Rightarrow> (error + jsstring) \<times> (jsstring \<rightharpoonup> bytes) \<times> event list" where
  "mux_and_clean env today n files1 evs1 evs2 =
     (case ffmpeg env files1 (segment_paths env n) of
        Inl err \<Rightarrow>
          (Inl err, files1,
           evs1 @ [Concat (segment_paths env n) n (finalAudioPath_of env today)])
      | Inr merged \<Rightarrow>
          (Inr (finalAudioPath_of env today),
           (\<lambda>p. if p \<in> set (segment_paths env n) \<and> unlink env p = None then None
                 else (files1(finalAudioPath_of env today \<mapsto> merged)) p),
           evs1 @ [Concat (segment_paths env n) n (finalAudioPath_of env today)] @ evs2))"

section \<open>Concrete inputs\<close>

text \<open>
  Three summarised newsletters, two of them on the same topic; a pipeline environment in
  which every call returns, except the removal of the second segment file; and the same
  environment with a muxer that fails.
\<close>

definition sample_newsletters :: "(email \<times> summary_result) list" where
  "sample_newsletters =
     [(\<lparr>email_id = lit ''m1'', email_subject = Some (lit ''Chips''), email_from = Some (lit ''A''),
        email_body = lit ''b1'', email_date = 1\<rparr>,
       \<lparr>topic = lit ''TECH_NEWS'', summary = lit ''New chip.''\<rparr>),
      (\<lparr>email_id = lit ''m2'', email_subject = Some (lit ''Rates''), email_from = Some (lit ''B''),
        email_body = lit ''b2'', email_date = 2\<rparr>,
       \<lparr>topic = lit ''BUSINESS'', summary = lit ''Rates rose.''\<rparr>),
      (\<lparr>email_id = lit ''m3'', email_subject = None, email_from = Some (lit ''C''),
        email_body = lit ''b3'', email_date = 3\<rparr>,
       \<lparr>topic = lit ''TECH_NEWS'', summary = lit ''New phone.''\<rparr>)]"

definition sample_env :: audio_env where
  "sample_env =
     \<lparr>cwd = lit ''/app'', mkdir = (\<lambda>d. None), synthesizeSpeech = (\<lambda>i r. Inr [i]),
      writeFile = (\<lambda>p a. None), ffmpeg = (\<lambda>fs ps. Inr [7]),
      unlink = (\<lambda>p. if p = lit ''/app/audio/segment_1.mp3'' then Some (External 2) else None)\<rparr>"

definition sample_env_mux_fails :: audio_env where
  "sample_env_mux_fails = sample_env\<lparr>ffmpeg := (\<lambda>fs ps. Inl (External 1))\<rparr>"

section \<open>Properties of the response parser and of the chunk loop\<close>

lemma regex_search_absent:
  "regex_search (ci_prefix m) s = None \<Longrightarrow>
   regex_search (\<lambda>t. case ci_prefix m t of None \<Rightarrow> None | Some r \<Rightarrow> f r) s = None"
  by (induction s) (auto split: option.splits)

lemma categoryMatch_absent:
  "\<not> containsMarker (lit ''CATEGORY:'') r \<Longrightarrow> categoryMatch r = None"
proof -
  assume "\<not> containsMarker (lit ''CATEGORY:'') r"
  then have "regex_search (ci_prefix (lit ''CATEGORY:'')) r = None"
    by (simp add: containsMarker_def split: option.splits)
  from regex_search_absent [OF this]
  show ?thesis
    unfolding categoryMatch_def category_at_def [abs_def] .
qed

lemma summaryMatch_absent:
  "\<not> containsMarker (lit ''SUMMARY:'') r \<Longrightarrow> summaryMatch r = None"
proof -
  assume "\<not> containsMarker (lit ''SUMMARY:'') r"
  then have "regex_search (ci_prefix (lit ''SUMMARY:'')) r = None"
    by (simp add: containsMarker_def split: option.splits)
  from regex_search_absent [OF this]
  show ?thesis
    unfolding summaryMatch_def summary_at_def [abs_def] .
qed

lemma chunk_loop_done:
  "\<not> i < length tokens \<Longrightarrow>
   chunk_loop tk ai tokens i fs ct made = (Inr \<lparr>topic = ct, summary = fs\<rparr>, made)"
  by (subst chunk_loop.simps) simp

lemma chunk_loop_first:
  "0 < length tokens \<Longrightarrow>
   chunk_loop tk ai tokens 0 fs ct made =
     (let request = \<lparr>system_content = first_prompt,
                     user_content = decode tk (take maxTokensPerChunk tokens)\<rparr>;
          reply = ai (length made) request
      in case reply of
           Inl e \<Rightarrow> (Inl e, made @ [(request, reply)])
         | Inr None \<Rightarrow> (Inl TypeError, made @ [(request, reply)])
         | Inr (Some r) \<Rightarrow>
             chunk_loop tk ai tokens maxTokensPerChunk (summaryOf r) (topicOf r)
               (made @ [(request, reply)]))"
  by (subst chunk_loop.simps) (simp add: Let_def split: sum.splits option.splits)

lemma chunk_loop_later:
  "0 < i \<Longrightarrow> i < length tokens \<Longrightarrow>
   chunk_loop tk ai tokens i fs ct made =
     (let request = \<lparr>system_content =
                       next_prompt (length tokens \<le> i + maxTokensPerChunk) fs,
                     user_content = decode tk (take maxTokensPerChunk (drop i tokens))\<rparr>;
          reply = ai (length made) request
      in case reply of
           Inl e \<Rightarrow> (Inl e, made @ [(request, reply)])
         | Inr result \<Rightarrow>
             chunk_loop tk ai tokens (i + maxTokensPerChunk) (appendReply fs result) ct
               (made @ [(request, reply)]))"
  by (subst chunk_loop.simps) (simp add: Let_def split: sum.splits)



lemma chunk_count_step:
  assumes "0 < m" "i < (n::nat)"
  shows "(n - i + (m - 1)) div m = Suc ((n - (i + m) + (m - 1)) div m)"
proof (cases "i + m \<le> n")
  case True
  then have "n - i + (m - 1) = (n - (i + m) + (m - 1)) + m" by simp
  then have "(n - i + (m - 1)) div m = ((n - (i + m) + (m - 1)) + m) div m" by (rule arg_cong)
  also have "\<dots> = (n - (i + m) + (m - 1)) div m + 1"
    using assms(1) by (intro div_add_self2) simp
  finally show ?thesis by (simp only: Suc_eq_plus1)
next
  case False
  then have z: "(n - (i + m) + (m - 1)) div m = 0" using assms(1) by simp
  from False assms have e: "n - i + (m - 1) = (n - i - 1) + m" and small: "n - i - 1 < m" by simp_all
  from e have "(n - i + (m - 1)) div m = ((n - i - 1) + m) div m" by (rule arg_cong)
  also have "\<dots> = (n - i - 1) div m + 1"
    using assms(1) by (intro div_add_self2) simp
  also have "\<dots> = 1" using small by simp
  finally show ?thesis using z by (simp only: One_nat_def)
qed

lemma chunk_count_first:
  assumes "0 < m" "m < (n::nat)"
  shows "Suc ((n - m + (m - 1)) div m) = (n + (m - 1)) div m"
    and "1 \<le> (n - m + (m - 1)) div m"
proof -
  from assms have "n + (m - 1) = (n - m + (m - 1)) + m" by simp
  then have "(n + (m - 1)) div m = ((n - m + (m - 1)) + m) div m" by (rule arg_cong)
  also have "\<dots> = (n - m + (m - 1)) div m + 1"
    using assms(1) by (intro div_add_self2) simp
  finally show "Suc ((n - m + (m - 1)) div m) = (n + (m - 1)) div m"
    by (simp only: Suc_eq_plus1)
  from assms have "m \<le> n - m + (m - 1)" by simp
  then have "m div m \<le> (n - m + (m - 1)) div m" by (rule div_le_mono)
  with assms(1) show "1 \<le> (n - m + (m - 1)) div m" by simp
qed

lemma maxTokensPerChunk_pos: "0 < maxTokensPerChunk"
  by (simp add: maxTokensPerChunk_def)

lemma chunk_loop_rest:
  "0 < i \<Longrightarrow> chunk_loop tk ai tokens i fs ct made = (Inr res, made') \<Longrightarrow>
   \<exists>rest. map snd made' = map snd made @ map Inr rest \<and>
          length rest = (length tokens - i + (maxTokensPerChunk - 1)) div maxTokensPerChunk \<and>
          topic res = ct \<and> summary res = foldl appendReply fs rest"
proof (induction "length tokens - i" arbitrary: i fs made rule: less_induct)
  case less
  show ?case
  proof (cases "i < length tokens")
    case False
    with less.prems have "res = \<lparr>topic = ct, summary = fs\<rparr>" "made' = made"
      by (simp_all add: chunk_loop_done)
    moreover from False have "(length tokens - i + (maxTokensPerChunk - 1)) div maxTokensPerChunk = 0"
      using maxTokensPerChunk_pos by simp
    ultimately show ?thesis by simp
  next
    case True
    define request where "request = \<lparr>system_content =
                       next_prompt (length tokens \<le> i + maxTokensPerChunk) fs,
                     user_content = decode tk (take maxTokensPerChunk (drop i tokens))\<rparr>"
    define reply where "reply = ai (length made) request"
    from less.prems True obtain result where
      r: "reply = Inr result" and
      run: "chunk_loop tk ai tokens (i + maxTokensPerChunk) (appendReply fs result) ct
               (made @ [(request, reply)]) = (Inr res, made')"
      by (auto simp: chunk_loop_later Let_def request_def reply_def split: sum.splits)
    have "length tokens - (i + maxTokensPerChunk) < length tokens - i"
      using True maxTokensPerChunk_pos by simp
    moreover have "0 < i + maxTokensPerChunk" using less.prems(1) by simp
    ultimately have "\<exists>rest. map snd made' = map snd (made @ [(request, reply)]) @ map Inr rest \<and>
          length rest = (length tokens - (i + maxTokensPerChunk) + (maxTokensPerChunk - 1)) div maxTokensPerChunk \<and>
          topic res = ct \<and> summary res = foldl appendReply (appendReply fs result) rest"
      using run by (rule less.hyps)
    then
    obtain rest where rest: "map snd made' = map snd (made @ [(request, reply)]) @ map Inr rest"
      "length rest = (length tokens - (i + maxTokensPerChunk) + (maxTokensPerChunk - 1)) div maxTokensPerChunk"
      "topic res = ct" "summary res = foldl appendReply (appendReply fs result) rest"
      by blast
    have "length (result # rest) = Suc (length rest)" by simp
    also have "\<dots> = (length tokens - i + (maxTokensPerChunk - 1)) div maxTokensPerChunk"
      unfolding rest(2) by (rule chunk_count_step [OF maxTokensPerChunk_pos True, symmetric])
    finally have "length (result # rest) =
        (length tokens - i + (maxTokensPerChunk - 1)) div maxTokensPerChunk" .
    with rest r show ?thesis
      by (intro exI [of _ "result # rest"]) simp
  qed
qed

lemma chunk_loop_returns:
  "0 < i \<Longrightarrow> \<forall>j req. \<exists>c. openai j req = Inr c \<Longrightarrow>
   \<exists>res made'. chunk_loop tk openai tokens i fs ct made = (Inr res, made')"
proof (induction "length tokens - i" arbitrary: i fs made rule: less_induct)
  case less
  show ?case
  proof (cases "i < length tokens")
    case False
    then show ?thesis by (simp add: chunk_loop_done)
  next
    case True
    define request where "request = \<lparr>system_content =
                       next_prompt (length tokens \<le> i + maxTokensPerChunk) fs,
                     user_content = decode tk (take maxTokensPerChunk (drop i tokens))\<rparr>"
    from less.prems(2) obtain c where c: "openai (length made) request = Inr c" by blast
    have "length tokens - (i + maxTokensPerChunk) < length tokens - i"
      using True maxTokensPerChunk_pos by simp
    moreover have "0 < i + maxTokensPerChunk" using less.prems(1) by simp
    ultimately have "\<exists>res made'.
        chunk_loop tk openai tokens (i + maxTokensPerChunk) (appendReply fs c) ct
          (made @ [(request, Inr c)]) = (Inr res, made')"
      using less.prems(2) by (rule less.hyps)
    with c show ?thesis
      by (simp add: chunk_loop_later [OF less.prems(1) True] Let_def request_def)
  qed
qed

lemma foldl_appendReply_take: "take (length fs) (foldl appendReply fs rest) = fs"
proof (induction rest arbitrary: fs)
  case Nil
  show ?case by simp
next
  case (Cons a rest)
  have "take (length fs) (foldl appendReply (appendReply fs a) rest) =
        take (length fs) (take (length (appendReply fs a)) (foldl appendReply (appendReply fs a) rest))"
    by (simp add: appendReply_def min_def)
  also have "\<dots> = take (length fs) (appendReply fs a)"
    by (simp only: Cons.IH)
  also have "\<dots> = fs"
    by (simp add: appendReply_def)
  finally show ?case by simp
qed

lemma no_markers_parse:
  assumes "\<not> containsMarker (lit ''CATEGORY:'') r" and "\<not> containsMarker (lit ''SUMMARY:'') r"
  shows "topicOf r = lit ''OTHER''" and "summaryOf r = r"
  using assms by (simp_all add: topicOf_def summaryOf_def categoryMatch_absent summaryMatch_absent)

section \<open>Properties of the buckets, of the sentence split and of the audio loops\<close>

lemma map_of_push:
  "map_of (map (\<lambda>(k, v). if k = t then (k, v @ [x]) else (k, v)) b) k =
     (if k = t then map_option (\<lambda>v. v @ [x]) (map_of b k) else map_of b k)"
  by (induction b) auto

lemma push_known:
  assumes "t \<in> fst ` set b"
  shows "\<exists>b'. push b t x = Inr b' \<and> map fst b' = map fst b \<and>
           (\<forall>k. map_of b' k =
              (if k = t then map_option (\<lambda>v. v @ [x]) (map_of b k) else map_of b k))"
proof -
  from assms obtain v where "map_of b t = Some v"
    by (metis domD dom_map_of_conv_image_fst)
  then have "push b t x = Inr (map (\<lambda>(k, v). if k = t then (k, v @ [x]) else (k, v)) b)"
    by (simp add: push_def)
  moreover have "map fst (map (\<lambda>(k, v). if k = t then (k, v @ [x]) else (k, v)) b) = map fst b"
    by (induction b) auto
  ultimately show ?thesis by (simp add: map_of_push)
qed

lemma newsletter_loop_known:
  "\<forall>p \<in> set ns. topic (snd p) \<in> fst ` set b \<Longrightarrow>
   \<exists>b'. newsletter_loop b ns = Inr b' \<and> map fst b' = map fst b \<and>
     (\<forall>t. map_of b' t =
        map_option (\<lambda>v. v @ map item_of (filter (\<lambda>p. topic (snd p) = t) ns)) (map_of b t))"
proof (induction ns arbitrary: b)
  case Nil
  show ?case by (simp add: option.map_ident)
next
  case (Cons p ns)
  obtain email result where p: "p = (email, result)" by (cases p)
  from Cons.prems p have "topic result \<in> fst ` set b" by simp
  from push_known [OF this, of "item_of p"]
  obtain b1 where b1: "push b (topic result) (item_of p) = Inr b1" "map fst b1 = map fst b"
    "\<And>k. map_of b1 k = (if k = topic result then map_option (\<lambda>v. v @ [item_of p]) (map_of b k)
                          else map_of b k)"
    by blast
  from b1(2) have "fst ` set b1 = fst ` set b" by (metis list.set_map)
  with Cons.prems have "\<forall>q \<in> set ns. topic (snd q) \<in> fst ` set b1" by simp
  from Cons.IH [OF this]
  obtain b' where b': "newsletter_loop b1 ns = Inr b'" "map fst b' = map fst b1"
    "\<And>t. map_of b' t =
        map_option (\<lambda>v. v @ map item_of (filter (\<lambda>p. topic (snd p) = t) ns)) (map_of b1 t)"
    by blast
  have "newsletter_loop b (p # ns) = Inr b'"
    using b1(1) b'(1) by (simp add: p item_of_def)
  moreover have "map fst b' = map fst b" using b'(2) b1(2) by simp
  moreover have "map_of b' t =
        map_option (\<lambda>v. v @ map item_of (filter (\<lambda>p. topic (snd p) = t) (p # ns))) (map_of b t)" for t
    by (cases "map_of b t") (auto simp: b'(3) b1(3) p)
  ultimately show ?case by blast
qed

lemma map_of_empty_buckets:
  "t \<in> set ks \<Longrightarrow> map_of (map (\<lambda>topic. (topic, [])) ks) t = Some []"
  by (induction ks) auto



lemma split_scenario:
  "split_sentences (lit ''X happened. Y followed.'') = [lit ''X happened.'', lit ''Y followed.'']"
  by (simp add: split_sentences_def lit_def isWhiteSpace_def)

lemma tech_news_name:
  "map (\<lambda>c. if c = 95 then 32 else c) (toLowerCase (lit ''TECH_NEWS'')) = lit ''tech news''"
  by (simp add: toLowerCase_def lowerUnit_def lit_def)

lemma synthesized_append: "synthesized (xs @ ys) = synthesized xs @ synthesized ys"
  by (induction xs rule: synthesized.induct) simp_all

lemma written_append: "written (xs @ ys) = written xs @ written ys"
  by (induction xs rule: written.induct) simp_all

lemma concat_inputs_append: "concat_inputs (xs @ ys) = concat_inputs xs @ concat_inputs ys"
  by (induction xs rule: concat_inputs.induct) simp_all

lemma unlinked_append: "unlinked (xs @ ys) = unlinked xs @ unlinked ys"
  by (induction xs rule: unlinked.induct) simp_all

lemma warned_append: "warned (xs @ ys) = warned xs @ warned ys"
  by (induction xs rule: warned.induct) simp_all

lemmas events_append =
  synthesized_append written_append concat_inputs_append unlinked_append warned_append

lemma decimal_value: "foldl (\<lambda>a d. 10 * a + (d - 48)) 0 (decimal n) = n"
proof (induction n rule: decimal.induct)
  case (1 n)
  show ?case
  proof (cases "n < 10")
    case True
    then show ?thesis by (subst decimal.simps) simp
  next
    case False
    with "1" have "foldl (\<lambda>a d. 10 * a + (d - 48)) 0 (decimal (n div 10)) = n div 10"
      by simp
    with False show ?thesis by (subst decimal.simps) simp
  qed
qed

lemma decimal_inject: "decimal m = decimal n \<Longrightarrow> m = n"
  by (metis decimal_value)

lemma segment_path_inject: "segment_path dir i = segment_path dir j \<longleftrightarrow> i = j"
  by (auto simp: segment_path_def path_join_def dest: decimal_inject)

lemma all_present:
  "map (\<lambda>i. map_option f (g i)) xs = map (\<lambda>y. Some (h y)) ys \<Longrightarrow>
   list_all (\<lambda>i. g i \<noteq> None) xs"
proof (induction xs arbitrary: ys)
  case Nil
  show ?case by simp
next
  case (Cons x xs)
  then obtain y ys' where "ys = y # ys'" by (cases ys) auto
  with Cons show ?case by auto
qed

lemma synth_loop_any:
  "\<exists>r files1 evs1.
     synth_loop env dir index script paths files evs = (r, files1, evs @ evs1) \<and>
     concat_inputs evs1 = [] \<and> unlinked evs1 = [] \<and> warned evs1 = [] \<and>
     (case r of Inl e \<Rightarrow> True | Inr ps \<Rightarrow>
        ps = paths @ map (segment_path dir) [index..<index + length script] \<and>
        synthesized evs1 = map tts_request_of script \<and>
        map (\<lambda>(p, a). (p, Inr a)) (written evs1) =
          map (\<lambda>(i, segment).
                 (segment_path dir i, synthesizeSpeech env i (tts_request_of segment)))
            (enumerate index script) \<and>
        map (\<lambda>i. map_option Inr (files1 (segment_path dir i)))
            [index..<index + length script] =
          map (\<lambda>(i, segment). Some (synthesizeSpeech env i (tts_request_of segment)))
            (enumerate index script)) \<and>
     (\<forall>j<index. files1 (segment_path dir j) = files (segment_path dir j))"
proof (induction script arbitrary: index paths files evs)
  case Nil
  show ?case by simp
next
  case (Cons segment rest)
  define request where "request = tts_request_of segment"
  define segmentPath where "segmentPath = segment_path dir index"
  show ?case
  proof (cases "synthesizeSpeech env index request")
    case (Inl e)
    then have "synth_loop env dir index (segment # rest) paths files evs =
                 (Inl e, files, evs @ [Synthesize request])"
      by (simp add: request_def)
    then show ?thesis by force
  next
    case (Inr a)
    show ?thesis
    proof (cases "writeFile env segmentPath a")
      case (Some e)
      with Inr have "synth_loop env dir index (segment # rest) paths files evs =
                 (Inl e, files, evs @ [Synthesize request, WriteFile segmentPath a])"
        by (simp add: request_def segmentPath_def)
      then show ?thesis by force
    next
      case None
      define here where "here = [Synthesize request, WriteFile segmentPath a]"
      from Cons.IH [of "index + 1" "paths @ [segmentPath]" "files(segmentPath \<mapsto> a)" "evs @ here"]
      obtain r files1 evs1 where
        run: "synth_loop env dir (index + 1) rest (paths @ [segmentPath])
                (files(segmentPath \<mapsto> a)) (evs @ here) = (r, files1, (evs @ here) @ evs1)"
        and ev: "concat_inputs evs1 = []" "unlinked evs1 = []" "warned evs1 = []"
        and res: "case r of Inl e \<Rightarrow> True | Inr ps \<Rightarrow>
            ps = (paths @ [segmentPath])
                   @ map (segment_path dir) [index + 1..<index + 1 + length rest] \<and>
            synthesized evs1 = map tts_request_of rest \<and>
            map (\<lambda>(p, a). (p, Inr a)) (written evs1) =
              map (\<lambda>(i, segment).
                     (segment_path dir i, synthesizeSpeech env i (tts_request_of segment)))
                (enumerate (index + 1) rest) \<and>
            map (\<lambda>i. map_option Inr (files1 (segment_path dir i)))
                [index + 1..<index + 1 + length rest] =
              map (\<lambda>(i, segment). Some (synthesizeSpeech env i (tts_request_of segment)))
                (enumerate (index + 1) rest)"
        and frame: "\<forall>j<index + 1.
            files1 (segment_path dir j) = (files(segmentPath \<mapsto> a)) (segment_path dir j)"
        by blast
      have range: "[index..<index + length (segment # rest)] =
                   index # [index + 1..<index + 1 + length rest]"
        by (subst upt_rec) simp
      from frame have head: "files1 (segment_path dir index) = Some a"
        by (simp add: segmentPath_def)
      have "synth_loop env dir index (segment # rest) paths files evs =
              (r, files1, evs @ (here @ evs1))"
        using Inr None run
        by (simp add: request_def [symmetric] segmentPath_def [symmetric] here_def Let_def)
      moreover have "concat_inputs (here @ evs1) = []" "unlinked (here @ evs1) = []"
        "warned (here @ evs1) = []"
        by (simp_all add: events_append ev here_def)
      moreover have "case r of Inl e \<Rightarrow> True | Inr ps \<Rightarrow>
            ps = paths @ map (segment_path dir) [index..<index + length (segment # rest)] \<and>
            synthesized (here @ evs1) = map tts_request_of (segment # rest) \<and>
            map (\<lambda>(p, a). (p, Inr a)) (written (here @ evs1)) =
              map (\<lambda>(i, segment).
                     (segment_path dir i, synthesizeSpeech env i (tts_request_of segment)))
                (enumerate index (segment # rest)) \<and>
            map (\<lambda>i. map_option Inr (files1 (segment_path dir i)))
                [index..<index + length (segment # rest)] =
              map (\<lambda>(i, segment). Some (synthesizeSpeech env i (tts_request_of segment)))
                (enumerate index (segment # rest))"
      proof (cases r)
        case (Inl e)
        then show ?thesis by simp
      next
        case (Inr ps)
        with res head \<open>synthesizeSpeech env index request = Inr a\<close> show ?thesis
          unfolding range
          by (simp add: events_append here_def request_def segmentPath_def)
      qed
      moreover have "\<forall>j<index. files1 (segment_path dir j) = files (segment_path dir j)"
        using frame by (simp add: segmentPath_def segment_path_inject)
      ultimately show ?thesis by blast
    qed
  qed
qed

lemma unlink_loop_ok:
  "\<exists>evs2. unlink_loop env ps files evs =
            ((\<lambda>p. if p \<in> set ps \<and> unlink env p = None then None else files p), evs @ evs2) \<and>
          unlinked evs2 = ps \<and>
          warned evs2 = filter (\<lambda>p. unlink env p \<noteq> None) ps \<and>
          synthesized evs2 = [] \<and> written evs2 = [] \<and> concat_inputs evs2 = []"
proof (induction ps arbitrary: files evs)
  case Nil
  show ?case by simp
next
  case (Cons audioPath rest)
  show ?case
  proof (cases "unlink env audioPath")
    case None
    from Cons.IH [of "files(audioPath := None)" "evs @ [Unlink audioPath]"]
    obtain evs2 where
      run: "unlink_loop env rest (files(audioPath := None)) (evs @ [Unlink audioPath]) =
            ((\<lambda>p. if p \<in> set rest \<and> unlink env p = None then None
                   else (files(audioPath := None)) p),
             (evs @ [Unlink audioPath]) @ evs2)"
      and ev: "unlinked evs2 = rest" "warned evs2 = filter (\<lambda>p. unlink env p \<noteq> None) rest"
        "synthesized evs2 = []" "written evs2 = []" "concat_inputs evs2 = []"
      by blast
    have "(\<lambda>p. if p \<in> set rest \<and> unlink env p = None then None
               else (files(audioPath := None)) p) =
          (\<lambda>p. if p \<in> set (audioPath # rest) \<and> unlink env p = None then None else files p)"
      using None by (auto simp: fun_eq_iff)
    with run None have
      "unlink_loop env (audioPath # rest) files evs =
         ((\<lambda>p. if p \<in> set (audioPath # rest) \<and> unlink env p = None then None else files p),
          evs @ (Unlink audioPath # evs2))"
      by simp
    moreover have "unlinked (Unlink audioPath # evs2) = audioPath # rest"
      "warned (Unlink audioPath # evs2) = filter (\<lambda>p. unlink env p \<noteq> None) (audioPath # rest)"
      "synthesized (Unlink audioPath # evs2) = []" "written (Unlink audioPath # evs2) = []"
      "concat_inputs (Unlink audioPath # evs2) = []"
      using ev None by simp_all
    ultimately show ?thesis by blast
  next
    case (Some err)
    from Cons.IH [of files "evs @ [Unlink audioPath, Warn audioPath err]"]
    obtain evs2 where
      run: "unlink_loop env rest files (evs @ [Unlink audioPath, Warn audioPath err]) =
            ((\<lambda>p. if p \<in> set rest \<and> unlink env p = None then None else files p),
             (evs @ [Unlink audioPath, Warn audioPath err]) @ evs2)"
      and ev: "unlinked evs2 = rest" "warned evs2 = filter (\<lambda>p. unlink env p \<noteq> None) rest"
        "synthesized evs2 = []" "written evs2 = []" "concat_inputs evs2 = []"
      by blast
    have "(\<lambda>p. if p \<in> set rest \<and> unlink env p = None then None else files p) =
          (\<lambda>p. if p \<in> set (audioPath # rest) \<and> unlink env p = None then None else files p)"
      using Some by (auto simp: fun_eq_iff)
    with run Some have
      "unlink_loop env (audioPath # rest) files evs =
         ((\<lambda>p. if p \<in> set (audioPath # rest) \<and> unlink env p = None then None else files p),
          evs @ (Unlink audioPath # Warn audioPath err # evs2))"
      by simp
    moreover have "unlinked (Unlink audioPath # Warn audioPath err # evs2) = audioPath # rest"
      "warned (Unlink audioPath # Warn audioPath err # evs2) =
         filter (\<lambda>p. unlink env p \<noteq> None) (audioPath # rest)"
      "synthesized (Unlink audioPath # Warn audioPath err # evs2) = []"
      "written (Unlink audioPath # Warn audioPath err # evs2) = []"
      "concat_inputs (Unlink audioPath # Warn audioPath err # evs2) = []"
      using ev Some by simp_all
    ultimately show ?thesis by blast
  qed
qed

lemma generate_returns:
  assumes mk: "mkdir env (audioDir_of env) = None"
    and run: "synth_loop env (audioDir_of env) 0 (createSpeechScript timeNow b) [] files [] =
                (Inr (segment_paths env (length (createSpeechScript timeNow b))), files1, evs1)"
  shows "\<exists>evs2.
     unlinked evs2 = segment_paths env (length (createSpeechScript timeNow b)) \<and>
     warned evs2 = filter (\<lambda>p. unlink env p \<noteq> None)
                     (segment_paths env (length (createSpeechScript timeNow b))) \<and>
     synthesized evs2 = [] \<and> written evs2 = [] \<and> concat_inputs evs2 = [] \<and>
     generateAudioSummary env timeNow today b files =
       mux_and_clean env today (length (createSpeechScript timeNow b)) files1 evs1 evs2"
proof -
  define script where "script = createSpeechScript timeNow b"
  define dir where "dir = audioDir_of env"
  define segs where "segs = segment_paths env (length script)"
  define final where "final = finalAudioPath_of env today"
  define evc where "evc = evs1 @ [Concat segs (length script) final]"
  have dirE: "path_join (cwd env) (lit ''audio'') = dir"
    by (simp add: dir_def audioDir_of_def)
  have fin: "path_join dir (lit ''newsletter-summary-'' @ today @ lit ''.mp3'') = final"
    by (simp add: final_def finalAudioPath_of_def dir_def)
  have len: "length segs = length script" by (simp add: segs_def segment_paths_def)
  note mk = mk [folded dir_def]
  note run = run [folded script_def, folded dir_def segs_def]
  show ?thesis
  proof (cases "ffmpeg env files1 segs")
    case (Inl err)
    have "generateAudioSummary env timeNow today b files = (Inl err, files1, evc)"
      using mk run Inl
      by (simp add: generateAudioSummary_def Let_def script_def [symmetric] dirE fin len evc_def)
    moreover from unlink_loop_ok [of env segs files1 evc]
    obtain evs2 where "unlinked evs2 = segs"
      "warned evs2 = filter (\<lambda>p. unlink env p \<noteq> None) segs"
      "synthesized evs2 = []" "written evs2 = []" "concat_inputs evs2 = []"
      by blast
    ultimately show ?thesis
      using Inl
      unfolding script_def [symmetric] segs_def [symmetric] final_def [symmetric]
        mux_and_clean_def evc_def
      by (intro exI [of _ evs2]) simp
  next
    case (Inr merged)
    from unlink_loop_ok [of env segs "files1(final \<mapsto> merged)" evc]
    obtain evs2 where
      un: "unlink_loop env segs (files1(final \<mapsto> merged)) evc =
             ((\<lambda>p. if p \<in> set segs \<and> unlink env p = None then None
                    else (files1(final \<mapsto> merged)) p), evc @ evs2)"
      and ev2: "unlinked evs2 = segs" "warned evs2 = filter (\<lambda>p. unlink env p \<noteq> None) segs"
        "synthesized evs2 = []" "written evs2 = []" "concat_inputs evs2 = []"
      by blast
    have "generateAudioSummary env timeNow today b files =
            (Inr final, (\<lambda>p. if p \<in> set segs \<and> unlink env p = None then None
                    else (files1(final \<mapsto> merged)) p), evc @ evs2)"
      using mk run Inr un
      by (simp add: generateAudioSummary_def Let_def script_def [symmetric] dirE fin len evc_def)
    with Inr ev2 show ?thesis
      unfolding script_def [symmetric] segs_def [symmetric] final_def [symmetric]
        mux_and_clean_def evc_def
      by (intro exI [of _ evs2]) simp
  qed
qed

lemma generate_fails_early:
  assumes "mkdir env (audioDir_of env) \<noteq> None \<or>
           (\<exists>e. fst (synth_loop env (audioDir_of env) 0 (createSpeechScript timeNow b) [] files [])
                  = Inl e)"
  shows "concat_inputs (snd (snd (generateAudioSummary env timeNow today b files))) = []"
proof -
  define script where "script = createSpeechScript timeNow b"
  define dir where "dir = audioDir_of env"
  have dirE: "path_join (cwd env) (lit ''audio'') = dir"
    by (simp add: dir_def audioDir_of_def)
  show ?thesis
  proof (cases "mkdir env dir")
    case (Some e)
    then show ?thesis by (simp add: generateAudioSummary_def Let_def dirE)
  next
    case None
    with assms obtain e where e: "fst (synth_loop env dir 0 script [] files []) = Inl e"
      by (auto simp: dir_def script_def)
    from synth_loop_any [of env dir 0 script "[]" files "[]"]
    obtain r files1 evs1 where
      run: "synth_loop env dir 0 script [] files [] = (r, files1, [] @ evs1)"
      and "concat_inputs evs1 = []"
      by blast
    with e None show ?thesis
      by (simp add: generateAudioSummary_def Let_def dirE script_def [symmetric])
  qed
qed

lemma synth_loop_result:
  "\<exists>files1 evs1.
     (\<exists>e. synth_loop env (audioDir_of env) 0 script [] files [] = (Inl e, files1, evs1)) \<or>
     (synth_loop env (audioDir_of env) 0 script [] files [] =
        (Inr (segment_paths env (length script)), files1, evs1) \<and>
      synthesized evs1 = map tts_request_of script \<and>
      map (\<lambda>(p, a). (p, Inr a)) (written evs1) =
        map (\<lambda>(i, segment).
               (segment_path (audioDir_of env) i, synthesizeSpeech env i (tts_request_of segment)))
          (enumerate 0 script) \<and>
      map (\<lambda>i. map_option Inr (files1 (segment_path (audioDir_of env) i)))
          [0..<length script] =
        map (\<lambda>(i, segment). Some (synthesizeSpeech env i (tts_request_of segment)))
          (enumerate 0 script) \<and>
      concat_inputs evs1 = [] \<and> unlinked evs1 = [] \<and> warned evs1 = [] \<and>
      list_all (\<lambda>p. files1 p \<noteq> None) (segment_paths env (length script)))"
proof -
  from synth_loop_any [of env "audioDir_of env" 0 script "[]" files "[]"]
  obtain r files1 evs1 where
    run: "synth_loop env (audioDir_of env) 0 script [] files [] = (r, files1, [] @ evs1)"
    and ev1: "concat_inputs evs1 = []" "unlinked evs1 = []" "warned evs1 = []"
    and res: "case r of Inl e \<Rightarrow> True | Inr ps \<Rightarrow>
        ps = [] @ map (segment_path (audioDir_of env)) [0..<0 + length script] \<and>
        synthesized evs1 = map tts_request_of script \<and>
        map (\<lambda>(p, a). (p, Inr a)) (written evs1) =
          map (\<lambda>(i, segment).
                 (segment_path (audioDir_of env) i,
                  synthesizeSpeech env i (tts_request_of segment)))
            (enumerate 0 script) \<and>
        map (\<lambda>i. map_option Inr (files1 (segment_path (audioDir_of env) i)))
            [0..<0 + length script] =
          map (\<lambda>(i, segment). Some (synthesizeSpeech env i (tts_request_of segment)))
            (enumerate 0 script)"
    by blast
  show ?thesis
  proof (cases r)
    case (Inl e)
    with run show ?thesis by auto
  next
    case (Inr ps)
    with res have content:
      "map (\<lambda>i. map_option Inr (files1 (segment_path (audioDir_of env) i)))
           [0..<length script] =
         map (\<lambda>(i, segment). Some (synthesizeSpeech env i (tts_request_of segment)))
           (enumerate 0 script)"
      by simp
    have "map (\<lambda>i. map_option Inr (files1 (segment_path (audioDir_of env) i)))
             [0..<length script] =
          map (\<lambda>y. Some (synthesizeSpeech env (fst y) (tts_request_of (snd y))))
             (enumerate 0 script)"
      unfolding content by (simp add: case_prod_beta)
    from all_present [OF this]
    have "list_all (\<lambda>p. files1 p \<noteq> None) (segment_paths env (length script))"
      by (simp add: segment_paths_def list_all_iff)
    with Inr run res ev1 show ?thesis
      by (intro exI [of _ files1] exI [of _ evs1]) (simp add: segment_paths_def)
  qed
qed

lemma generate_cases:
  "concat_inputs (snd (snd (generateAudioSummary env timeNow today b files))) = [] \<or>
   (\<exists>evs1 evs2.
      synthesized evs1 = map tts_request_of (createSpeechScript timeNow b) \<and>
      map (\<lambda>(p, a). (p, Inr a)) (written evs1) =
        map (\<lambda>(i, segment).
               (segment_path (audioDir_of env) i, synthesizeSpeech env i (tts_request_of segment)))
          (enumerate 0 (createSpeechScript timeNow b)) \<and>
      map (\<lambda>i. map_option Inr
                 (files_after_synthesis env (createSpeechScript timeNow b) files
                    (segment_path (audioDir_of env) i)))
          [0..<length (createSpeechScript timeNow b)] =
        map (\<lambda>(i, segment). Some (synthesizeSpeech env i (tts_request_of segment)))
          (enumerate 0 (createSpeechScript timeNow b)) \<and>
      concat_inputs evs1 = [] \<and> unlinked evs1 = [] \<and> warned evs1 = [] \<and>
      unlinked evs2 = segment_paths env (length (createSpeechScript timeNow b)) \<and>
      warned evs2 = filter (\<lambda>p. unlink env p \<noteq> None)
                      (segment_paths env (length (createSpeechScript timeNow b))) \<and>
      synthesized evs2 = [] \<and> written evs2 = [] \<and> concat_inputs evs2 = [] \<and>
      list_all (\<lambda>p. files_after_synthesis env (createSpeechScript timeNow b) files p \<noteq> None)
        (segment_paths env (length (createSpeechScript timeNow b))) \<and>
      generateAudioSummary env timeNow today b files =
        mux_and_clean env today (length (createSpeechScript timeNow b))
          (files_after_synthesis env (createSpeechScript timeNow b) files) evs1 evs2)"
proof (cases "mkdir env (audioDir_of env)")
  case (Some e)
  then have "concat_inputs (snd (snd (generateAudioSummary env timeNow today b files))) = []"
    by (intro generate_fails_early) simp
  then show ?thesis ..
next
  case None
  from synth_loop_result [of env "createSpeechScript timeNow b" files]
  obtain files1 evs1 where
    alt: "(\<exists>e. synth_loop env (audioDir_of env) 0 (createSpeechScript timeNow b) [] files [] =
             (Inl e, files1, evs1)) \<or>
     (synth_loop env (audioDir_of env) 0 (createSpeechScript timeNow b) [] files [] =
        (Inr (segment_paths env (length (createSpeechScript timeNow b))), files1, evs1) \<and>
      synthesized evs1 = map tts_request_of (createSpeechScript timeNow b) \<and>
      map (\<lambda>(p, a). (p, Inr a)) (written evs1) =
        map (\<lambda>(i, segment).
               (segment_path (audioDir_of env) i, synthesizeSpeech env i (tts_request_of segment)))
          (enumerate 0 (createSpeechScript timeNow b)) \<and>
      map (\<lambda>i. map_option Inr (files1 (segment_path (audioDir_of env) i)))
          [0..<length (createSpeechScript timeNow b)] =
        map (\<lambda>(i, segment). Some (synthesizeSpeech env i (tts_request_of segment)))
          (enumerate 0 (createSpeechScript timeNow b)) \<and>
      concat_inputs evs1 = [] \<and> unlinked evs1 = [] \<and> warned evs1 = [] \<and>
      list_all (\<lambda>p. files1 p \<noteq> None)
        (segment_paths env (length (createSpeechScript timeNow b))))"
    by blast
  from alt show ?thesis
  proof
    assume "\<exists>e. synth_loop env (audioDir_of env) 0 (createSpeechScript timeNow b) [] files [] =
             (Inl e, files1, evs1)"
    then have "concat_inputs (snd (snd (generateAudioSummary env timeNow today b files))) = []"
      by (intro generate_fails_early) auto
    then show ?thesis ..
  next
    assume ok: "synth_loop env (audioDir_of env) 0 (createSpeechScript timeNow b) [] files [] =
        (Inr (segment_paths env (length (createSpeechScript timeNow b))), files1, evs1) \<and>
      synthesized evs1 = map tts_request_of (createSpeechScript timeNow b) \<and>
      map (\<lambda>(p, a). (p, Inr a)) (written evs1) =
        map (\<lambda>(i, segment).
               (segment_path (audioDir_of env) i, synthesizeSpeech env i (tts_request_of segment)))
          (enumerate 0 (createSpeechScript timeNow b)) \<and>
      map (\<lambda>i. map_option Inr (files1 (segment_path (audioDir_of env) i)))
          [0..<length (createSpeechScript timeNow b)] =
        map (\<lambda>(i, segment). Some (synthesizeSpeech env i (tts_request_of segment)))
          (enumerate 0 (createSpeechScript timeNow b)) \<and>
      concat_inputs evs1 = [] \<and> unlinked evs1 = [] \<and> warned evs1 = [] \<and>
      list_all (\<lambda>p. files1 p \<noteq> None)
        (segment_paths env (length (createSpeechScript timeNow b)))"
    then have run: "synth_loop env (audioDir_of env) 0 (createSpeechScript timeNow b) [] files [] =
        (Inr (segment_paths env (length (createSpeechScript timeNow b))), files1, evs1)"
      by blast
    then have f1: "files_after_synthesis env (createSpeechScript timeNow b) files = files1"
      by (simp add: files_after_synthesis_def)
    from generate_returns [OF None run, of today]
    obtain evs2 where
      "unlinked evs2 = segment_paths env (length (createSpeechScript timeNow b))"
      "warned evs2 = filter (\<lambda>p. unlink env p \<noteq> None)
                     (segment_paths env (length (createSpeechScript timeNow b)))"
      "synthesized evs2 = []" "written evs2 = []" "concat_inputs evs2 = []"
      "generateAudioSummary env timeNow today b files =
         mux_and_clean env today (length (createSpeechScript timeNow b)) files1 evs1 evs2"
      by blast
    with ok have "\<exists>evs1 evs2.
      synthesized evs1 = map tts_request_of (createSpeechScript timeNow b) \<and>
      map (\<lambda>(p, a). (p, Inr a)) (written evs1) =
        map (\<lambda>(i, segment).
               (segment_path (audioDir_of env) i, synthesizeSpeech env i (tts_request_of segment)))
          (enumerate 0 (createSpeechScript timeNow b)) \<and>
      map (\<lambda>i. map_option Inr
                 (files_after_synthesis env (createSpeechScript timeNow b) files
                    (segment_path (audioDir_of env) i)))
          [0..<length (createSpeechScript timeNow b)] =
        map (\<lambda>(i, segment). Some (synthesizeSpeech env i (tts_request_of segment)))
          (enumerate 0 (createSpeechScript timeNow b)) \<and>
      concat_inputs evs1 = [] \<and> unlinked evs1 = [] \<and> warned evs1 = [] \<and>
      unlinked evs2 = segment_paths env (length (createSpeechScript timeNow b)) \<and>
      warned evs2 = filter (\<lambda>p. unlink env p \<noteq> None)
                      (segment_paths env (length (createSpeechScript timeNow b))) \<and>
      synthesized evs2 = [] \<and> written evs2 = [] \<and> concat_inputs evs2 = [] \<and>
      list_all (\<lambda>p. files_after_synthesis env (createSpeechScript timeNow b) files p \<noteq> None)
        (segment_paths env (length (createSpeechScript timeNow b))) \<and>
      generateAudioSummary env timeNow today b files =
        mux_and_clean env today (length (createSpeechScript timeNow b))
          (files_after_synthesis env (createSpeechScript timeNow b) files) evs1 evs2"
      unfolding f1 by (intro exI [of _ evs1] exI [of _ evs2]) simp
    then show ?thesis ..
  qed
qed

lemma synth_loop_no_error:
  assumes tts: "\<forall>i req. \<exists>a. synthesizeSpeech env i req = Inr a"
    and wr: "\<forall>p a. writeFile env p a = None"
  shows "fst (synth_loop env dir index script paths files evs) \<noteq> Inl e"
proof (induction script arbitrary: index paths files evs)
  case Nil
  show ?case by simp
next
  case (Cons segment rest)
  from tts obtain a where "synthesizeSpeech env index (tts_request_of segment) = Inr a"
    by blast
  moreover from wr have "writeFile env (segment_path dir index) a = None" by blast
  ultimately show ?case using Cons.IH by (simp add: Let_def)
qed

lemma muxer_reached:
  assumes mk: "mkdir env (audioDir_of env) = None"
    and tts: "\<forall>i req. \<exists>a. synthesizeSpeech env i req = Inr a"
    and wr: "\<forall>p a. writeFile env p a = None"
  shows "concat_inputs (snd (snd (generateAudioSummary env timeNow today b files))) \<noteq> []"
proof -
  from synth_loop_result [of env "createSpeechScript timeNow b" files]
    synth_loop_no_error [OF tts wr, of "audioDir_of env" 0 "createSpeechScript timeNow b" "[]" files "[]"]
  obtain files1 evs1 where
    run: "synth_loop env (audioDir_of env) 0 (createSpeechScript timeNow b) [] files [] =
        (Inr (segment_paths env (length (createSpeechScript timeNow b))), files1, evs1)"
    by fastforce
  from generate_returns [OF mk run, of today]
  obtain evs2 where
    "generateAudioSummary env timeNow today b files =
       mux_and_clean env today (length (createSpeechScript timeNow b)) files1 evs1 evs2"
    by blast
  then show ?thesis
    by (simp add: mux_and_clean_def events_append split: sum.splits)
qed

lemma sample_reaches_muxer:
  "concat_inputs (snd (snd (generateAudioSummary sample_env timeNow today b files))) \<noteq> []"
  "concat_inputs (snd (snd (generateAudioSummary sample_env_mux_fails timeNow today b files))) \<noteq> []"
  by (rule muxer_reached; simp add: sample_env_def sample_env_mux_fails_def)+


lemma sample_script_length: "length (createSpeechScript t initial_buckets) = 5"
  by (simp add: createSpeechScript_def initial_buckets_def TOPIC_CATEGORIES_def)

lemma decimal_digit: "n < 10 \<Longrightarrow> decimal n = [48 + n]"
  by (subst decimal.simps) simp

lemma upt_five: "[0..<5] = [0, 1, 2, 3, 4::nat]"
  by code_simp

lemma sample_segment_paths:
  "segment_paths sample_env 5 =
     [lit ''/app/audio/segment_0.mp3'', lit ''/app/audio/segment_1.mp3'',
      lit ''/app/audio/segment_2.mp3'', lit ''/app/audio/segment_3.mp3'',
      lit ''/app/audio/segment_4.mp3'']"
  "segment_paths sample_env_mux_fails 5 = segment_paths sample_env 5"
  by (simp_all add: segment_paths_def audioDir_of_def segment_path_def path_join_def
        sample_env_def sample_env_mux_fails_def decimal_digit lit_def upt_five)

section \<open>Summarising: the single pass and the chunks\<close>

text \<open>
  C2. Content of at most 15,000 tokens is summarised by the single pass alone: the result
  of \<open>summarizeNewsletter\<close>, with the calls it made, is that of \<open>processSingleChunk\<close>
  on the whole content, and the one request sent carries the whole content.
\<close>

theorem C2_single_pass:
  "length (encode tk content) \<le> maxTokensPerChunk \<Longrightarrow>
   summarizeNewsletter (Inr tk) openai content = processSingleChunk openai content \<and>
   map (user_content \<circ> fst) (snd (summarizeNewsletter (Inr tk) openai content)) = [content]"
  by (simp add: summarizeNewsletter_def processSingleChunk_def Let_def
           split: sum.splits option.splits)

theorem C2_single_pass_witness:
  "length (encode \<lparr>encode = id, decode = id\<rparr> (lit ''hi'')) \<le> maxTokensPerChunk \<and>
   summarizeNewsletter (Inr \<lparr>encode = id, decode = id\<rparr>)
     (\<lambda>i req. Inr (Some (lit ''CATEGORY: BUSINESS SUMMARY: Rates rose.''))) (lit ''hi'') =
   processSingleChunk
     (\<lambda>i req. Inr (Some (lit ''CATEGORY: BUSINESS SUMMARY: Rates rose.''))) (lit ''hi'') \<and>
   map (user_content \<circ> fst)
     (snd (summarizeNewsletter (Inr \<lparr>encode = id, decode = id\<rparr>)
        (\<lambda>i req. Inr (Some (lit ''CATEGORY: BUSINESS SUMMARY: Rates rose.''))) (lit ''hi''))) =
   [lit ''hi'']"
proof -
  have small: "length (encode \<lparr>encode = id, decode = id\<rparr> (lit ''hi'')) \<le> maxTokensPerChunk"
    by (simp add: lit_def maxTokensPerChunk_def)
  from small C2_single_pass [OF small] show ?thesis by blast
qed

text \<open>
  C3. Content of more than 15,000 tokens is summarised in two or more calls, one for each
  chunk. When the run returns a result, the first reply was a text, the topic of the
  result is the topic parsed from that first reply alone, and the summary is the summary
  parsed from the first reply with the content of every later reply appended in order,
  each after a line feed.
\<close>

theorem C3_topic_from_first_chunk:
  assumes "maxTokensPerChunk < length (encode tk content)"
    and "fst (summarizeNewsletter (Inr tk) openai content) = Inr res"
  shows "\<exists>first rest.
           map snd (snd (summarizeNewsletter (Inr tk) openai content)) =
             Inr (Some first) # map Inr rest \<and>
           Suc (length rest) =
             (length (encode tk content) + (maxTokensPerChunk - 1)) div maxTokensPerChunk \<and>
           1 \<le> length rest \<and>
           topic res = topicOf first \<and>
           summary res = foldl appendReply (summaryOf first) rest"
proof -
  define tokens where "tokens = encode tk content"
  define request where "request = \<lparr>system_content = first_prompt,
                     user_content = decode tk (take maxTokensPerChunk tokens)\<rparr>"
  obtain made where whole: "summarizeNewsletter (Inr tk) openai content = (Inr res, made)"
    using assms(2) by (cases "summarizeNewsletter (Inr tk) openai content") simp
  from assms(1) whole have big: "maxTokensPerChunk < length tokens"
    and run: "chunk_loop tk openai tokens 0 [] [] [] = (Inr res, made)"
    by (simp_all add: summarizeNewsletter_def tokens_def Let_def)
  from big have pos: "0 < length tokens" by linarith
  from run obtain first where
    f: "openai 0 request = Inr (Some first)" and
    later: "chunk_loop tk openai tokens maxTokensPerChunk (summaryOf first) (topicOf first)
              [(request, openai 0 request)] = (Inr res, made)"
    by (auto simp: chunk_loop_first [OF pos] Let_def request_def split: sum.splits option.splits)
  from chunk_loop_rest [OF maxTokensPerChunk_pos later]
  obtain rest where rest: "map snd made = map snd [(request, openai 0 request)] @ map Inr rest"
    "length rest = (length tokens - maxTokensPerChunk + (maxTokensPerChunk - 1)) div maxTokensPerChunk"
    "topic res = topicOf first" "summary res = foldl appendReply (summaryOf first) rest"
    by blast
  have "Suc (length rest) = (length tokens + (maxTokensPerChunk - 1)) div maxTokensPerChunk"
    unfolding rest(2) by (rule chunk_count_first(1) [OF maxTokensPerChunk_pos big])
  moreover have "1 \<le> length rest"
    unfolding rest(2) by (rule chunk_count_first(2) [OF maxTokensPerChunk_pos big])
  ultimately show ?thesis
    using rest f unfolding tokens_def whole by (intro exI [of _ first] exI [of _ rest]) simp
qed

theorem C3_topic_from_first_chunk_witness:
  "maxTokensPerChunk < length (encode \<lparr>encode = id, decode = id\<rparr> (replicate 15001 97)) \<and>
   fst (summarizeNewsletter (Inr \<lparr>encode = id, decode = id\<rparr>)
     (\<lambda>i req. if i = 0 then Inr (Some (lit ''Category: Business'' @ [10] @ lit ''Summary: Rates rose.''))
                else Inr (Some (lit ''Bonds fell.'')))
     (replicate 15001 97)) =
     Inr \<lparr>topic = lit ''BUSINESS'', summary = lit ''Rates rose.'' @ [10] @ lit ''Bonds fell.''\<rparr> \<and>
   (\<exists>first rest.
      map snd (snd (summarizeNewsletter (Inr \<lparr>encode = id, decode = id\<rparr>)
        (\<lambda>i req. if i = 0 then Inr (Some (lit ''Category: Business'' @ [10] @ lit ''Summary: Rates rose.''))
                   else Inr (Some (lit ''Bonds fell.'')))
        (replicate 15001 97))) = Inr (Some first) # map Inr rest \<and>
      Suc (length rest) =
        (length (encode \<lparr>encode = id, decode = id\<rparr> (replicate 15001 97)) + (maxTokensPerChunk - 1))
          div maxTokensPerChunk \<and>
      1 \<le> length rest \<and>
      topic \<lparr>topic = lit ''BUSINESS'', summary = lit ''Rates rose.'' @ [10] @ lit ''Bonds fell.''\<rparr> =
        topicOf first \<and>
      summary \<lparr>topic = lit ''BUSINESS'', summary = lit ''Rates rose.'' @ [10] @ lit ''Bonds fell.''\<rparr> =
        foldl appendReply (summaryOf first) rest)"
proof -
  have big: "maxTokensPerChunk < length (encode \<lparr>encode = id, decode = id\<rparr> (replicate 15001 97))"
    by (simp add: maxTokensPerChunk_def)
  have t: "topicOf (lit ''Category: Business'' @ 10 # lit ''Summary: Rates rose.'') = lit ''BUSINESS''"
    by (simp add: lit_def topicOf_def categoryMatch_def category_at_def isWhiteSpace_def
          isCategoryUnit_def upperUnit_def toUpperCase_def trim_def)
  have s: "summaryOf (lit ''Category: Business'' @ 10 # lit ''Summary: Rates rose.'') = lit ''Rates rose.''"
    by (simp add: lit_def summaryOf_def summaryMatch_def summary_at_def isWhiteSpace_def
          upperUnit_def trim_def)
  have run: "fst (summarizeNewsletter (Inr \<lparr>encode = id, decode = id\<rparr>)
     (\<lambda>i req. if i = 0 then Inr (Some (lit ''Category: Business'' @ [10] @ lit ''Summary: Rates rose.''))
                else Inr (Some (lit ''Bonds fell.'')))
     (replicate 15001 97)) =
     Inr \<lparr>topic = lit ''BUSINESS'', summary = lit ''Rates rose.'' @ [10] @ lit ''Bonds fell.''\<rparr>"
    apply (simp add: summarizeNewsletter_def maxTokensPerChunk_def)
    apply (subst chunk_loop.simps, simp add: maxTokensPerChunk_def)
    apply (subst chunk_loop.simps, simp add: maxTokensPerChunk_def)
    apply (subst chunk_loop.simps, simp add: maxTokensPerChunk_def)
    apply (simp add: t s appendReply_def)
    done
  from big run C3_topic_from_first_chunk [OF big run] show ?thesis by blast
qed

text \<open>
  C4. A first reply that holds neither the marker \<^verbatim>\<open>CATEGORY:\<close> nor the marker
  \<^verbatim>\<open>SUMMARY:\<close> (in any case of the letters, as the patterns read them) gives the topic
  \<^verbatim>\<open>OTHER\<close> and the whole reply as the summary: from \<open>processSingleChunk\<close>, and so
  from \<open>summarizeNewsletter\<close> on content within the budget. On content over the budget
  the summary is not the first reply alone: a returned result has the topic \<^verbatim>\<open>OTHER\<close>
  and, as its summary, the whole first reply followed by the content of every later reply,
  each after a line feed; and a result is returned whenever no call throws.
\<close>

theorem C4_no_markers:
  assumes "\<not> containsMarker (lit ''CATEGORY:'') r"
    and "\<not> containsMarker (lit ''SUMMARY:'') r"
    and "\<forall>req. openai 0 req = Inr (Some r)"
  shows "fst (processSingleChunk openai content) = Inr \<lparr>topic = lit ''OTHER'', summary = r\<rparr> \<and>
         (length (encode tk content) \<le> maxTokensPerChunk \<longrightarrow>
            fst (summarizeNewsletter (Inr tk) openai content) =
              Inr \<lparr>topic = lit ''OTHER'', summary = r\<rparr>) \<and>
         (maxTokensPerChunk < length (encode tk content) \<longrightarrow>
            (\<forall>res. fst (summarizeNewsletter (Inr tk) openai content) = Inr res \<longrightarrow>
               (\<exists>rest.
                  map snd (snd (summarizeNewsletter (Inr tk) openai content)) =
                    Inr (Some r) # map Inr rest \<and>
                  Suc (length rest) =
                    (length (encode tk content) + (maxTokensPerChunk - 1))
                      div maxTokensPerChunk \<and>
                  1 \<le> length rest \<and>
                  topic res = lit ''OTHER'' \<and>
                  summary res = foldl appendReply r rest))) \<and>
         (maxTokensPerChunk < length (encode tk content) \<longrightarrow>
            (\<forall>i req. \<exists>c. openai i req = Inr c) \<longrightarrow>
            (\<exists>res. fst (summarizeNewsletter (Inr tk) openai content) = Inr res))"
proof -
  note parse = no_markers_parse [OF assms(1,2)]
  define tokens where "tokens = encode tk content"
  define request where "request = \<lparr>system_content = first_prompt,
                     user_content = decode tk (take maxTokensPerChunk tokens)\<rparr>"
  have single: "fst (processSingleChunk openai content) = Inr \<lparr>topic = lit ''OTHER'', summary = r\<rparr>"
    using assms(3) by (simp add: processSingleChunk_def Let_def parse)
  have small: "fst (summarizeNewsletter (Inr tk) openai content) =
              Inr \<lparr>topic = lit ''OTHER'', summary = r\<rparr>"
    if "length (encode tk content) \<le> maxTokensPerChunk"
    using that single by (simp add: summarizeNewsletter_def Let_def)
  have first: "chunk_loop tk openai tokens 0 [] [] [] =
      chunk_loop tk openai tokens maxTokensPerChunk r (lit ''OTHER'') [(request, Inr (Some r))]"
    if "maxTokensPerChunk < length tokens"
  proof -
    from that have "0 < length tokens" by linarith
    from chunk_loop_first [OF this, of tk openai "[]" "[]" "[]"] assms(3)
    show ?thesis by (simp add: Let_def request_def parse)
  qed
  have whole: "summarizeNewsletter (Inr tk) openai content =
      chunk_loop tk openai tokens maxTokensPerChunk r (lit ''OTHER'') [(request, Inr (Some r))]"
    if "maxTokensPerChunk < length tokens"
    using that first [OF that] by (simp add: summarizeNewsletter_def tokens_def Let_def)
  have chunked: "\<exists>rest.
                  map snd (snd (summarizeNewsletter (Inr tk) openai content)) =
                    Inr (Some r) # map Inr rest \<and>
                  Suc (length rest) =
                    (length (encode tk content) + (maxTokensPerChunk - 1))
                      div maxTokensPerChunk \<and>
                  1 \<le> length rest \<and>
                  topic res = lit ''OTHER'' \<and>
                  summary res = foldl appendReply r rest"
    if big: "maxTokensPerChunk < length (encode tk content)"
      and ok: "fst (summarizeNewsletter (Inr tk) openai content) = Inr res" for res
  proof -
    from big have big': "maxTokensPerChunk < length tokens" by (simp add: tokens_def)
    obtain made where made: "summarizeNewsletter (Inr tk) openai content = (Inr res, made)"
      using ok by (cases "summarizeNewsletter (Inr tk) openai content") simp
    with whole [OF big'] have later:
      "chunk_loop tk openai tokens maxTokensPerChunk r (lit ''OTHER'') [(request, Inr (Some r))] =
         (Inr res, made)"
      by simp
    from chunk_loop_rest [OF maxTokensPerChunk_pos later]
    obtain rest where rest: "map snd made = map snd [(request, Inr (Some r))] @ map Inr rest"
      "length rest =
         (length tokens - maxTokensPerChunk + (maxTokensPerChunk - 1)) div maxTokensPerChunk"
      "topic res = lit ''OTHER''" "summary res = foldl appendReply r rest"
      by blast
    have "Suc (length rest) = (length tokens + (maxTokensPerChunk - 1)) div maxTokensPerChunk"
      unfolding rest(2) by (rule chunk_count_first(1) [OF maxTokensPerChunk_pos big'])
    moreover have "1 \<le> length rest"
      unfolding rest(2) by (rule chunk_count_first(2) [OF maxTokensPerChunk_pos big'])
    ultimately show ?thesis
      using rest unfolding tokens_def made by (intro exI [of _ rest]) simp
  qed
  have returns: "\<exists>res. fst (summarizeNewsletter (Inr tk) openai content) = Inr res"
    if big: "maxTokensPerChunk < length (encode tk content)"
      and all: "\<forall>i req. \<exists>c. openai i req = Inr c"
  proof -
    from big have big': "maxTokensPerChunk < length tokens" by (simp add: tokens_def)
    from chunk_loop_returns [OF maxTokensPerChunk_pos all]
    obtain res made where
      "chunk_loop tk openai tokens maxTokensPerChunk r (lit ''OTHER'') [(request, Inr (Some r))] =
         (Inr res, made)"
      by blast
    with whole [OF big'] show ?thesis by simp
  qed
  from single small chunked returns show ?thesis by blast
qed

theorem C4_no_markers_witness:
  "\<not> containsMarker (lit ''CATEGORY:'') (lit ''Sorry, I cannot help.'') \<and>
   \<not> containsMarker (lit ''SUMMARY:'') (lit ''Sorry, I cannot help.'') \<and>
   (\<forall>req. (\<lambda>i req. Inr (Some (lit ''Sorry, I cannot help.''))) (0::nat) (req::chat_request) =
      (Inr (Some (lit ''Sorry, I cannot help.'')) :: error + jsstring option)) \<and>
   fst (processSingleChunk (\<lambda>i req. Inr (Some (lit ''Sorry, I cannot help.''))) (lit ''hi'')) =
     Inr \<lparr>topic = lit ''OTHER'', summary = lit ''Sorry, I cannot help.''\<rparr> \<and>
   fst (summarizeNewsletter (Inr \<lparr>encode = id, decode = id\<rparr>)
          (\<lambda>i req. Inr (Some (lit ''Sorry, I cannot help.''))) (lit ''hi'')) =
     Inr \<lparr>topic = lit ''OTHER'', summary = lit ''Sorry, I cannot help.''\<rparr> \<and>
   (\<exists>res rest.
      fst (summarizeNewsletter (Inr \<lparr>encode = id, decode = id\<rparr>)
             (\<lambda>i req. Inr (Some (lit ''Sorry, I cannot help.''))) (replicate 15001 97)) =
        Inr res \<and>
      map snd (snd (summarizeNewsletter (Inr \<lparr>encode = id, decode = id\<rparr>)
             (\<lambda>i req. Inr (Some (lit ''Sorry, I cannot help.''))) (replicate 15001 97))) =
        Inr (Some (lit ''Sorry, I cannot help.'')) # map Inr rest \<and>
      1 \<le> length rest \<and>
      topic res = lit ''OTHER'' \<and>
      summary res = foldl appendReply (lit ''Sorry, I cannot help.'') rest)"
proof -
  have c: "\<not> containsMarker (lit ''CATEGORY:'') (lit ''Sorry, I cannot help.'')"
    by (simp add: containsMarker_def lit_def upperUnit_def)
  have s: "\<not> containsMarker (lit ''SUMMARY:'') (lit ''Sorry, I cannot help.'')"
    by (simp add: containsMarker_def lit_def upperUnit_def)
  have a: "\<forall>req. (\<lambda>i req. Inr (Some (lit ''Sorry, I cannot help.''))) (0::nat) (req::chat_request) =
      (Inr (Some (lit ''Sorry, I cannot help.'')) :: error + jsstring option)"
    by simp
  have small: "length (encode \<lparr>encode = id, decode = id\<rparr> (lit ''hi'')) \<le> maxTokensPerChunk"
    by (simp add: lit_def maxTokensPerChunk_def)
  have big: "maxTokensPerChunk <
             length (encode \<lparr>encode = id, decode = id\<rparr> (replicate 15001 (97::nat)))"
    by (simp add: maxTokensPerChunk_def)
  note one = C4_no_markers [OF c s a, of "lit ''hi''" "\<lparr>encode = id, decode = id\<rparr>"]
  note two = C4_no_markers [OF c s a, of "replicate 15001 97" "\<lparr>encode = id, decode = id\<rparr>"]
  note o1 = one [THEN conjunct1]
  note o2 = one [THEN conjunct2, THEN conjunct1, rule_format, OF small]
  note ret = two [THEN conjunct2, THEN conjunct2, THEN conjunct2, rule_format, OF big]
  have "\<exists>res. fst (summarizeNewsletter (Inr \<lparr>encode = id, decode = id\<rparr>)
             (\<lambda>i req. Inr (Some (lit ''Sorry, I cannot help.''))) (replicate 15001 97)) =
        Inr res"
    by (rule ret) simp
  then obtain res where
    res: "fst (summarizeNewsletter (Inr \<lparr>encode = id, decode = id\<rparr>)
             (\<lambda>i req. Inr (Some (lit ''Sorry, I cannot help.''))) (replicate 15001 97)) =
        Inr res"
    by blast
  from two [THEN conjunct2, THEN conjunct2, THEN conjunct1, rule_format, OF big res]
  obtain rest where
    rest: "map snd (snd (summarizeNewsletter (Inr \<lparr>encode = id, decode = id\<rparr>)
             (\<lambda>i req. Inr (Some (lit ''Sorry, I cannot help.''))) (replicate 15001 97))) =
        Inr (Some (lit ''Sorry, I cannot help.'')) # map Inr rest"
      "1 \<le> length rest" "topic res = lit ''OTHER''"
      "summary res = foldl appendReply (lit ''Sorry, I cannot help.'') rest"
    by (elim exE conjE) (rule that, assumption+)
  from res rest have "\<exists>res rest.
      fst (summarizeNewsletter (Inr \<lparr>encode = id, decode = id\<rparr>)
             (\<lambda>i req. Inr (Some (lit ''Sorry, I cannot help.''))) (replicate 15001 97)) =
        Inr res \<and>
      map snd (snd (summarizeNewsletter (Inr \<lparr>encode = id, decode = id\<rparr>)
             (\<lambda>i req. Inr (Some (lit ''Sorry, I cannot help.''))) (replicate 15001 97))) =
        Inr (Some (lit ''Sorry, I cannot help.'')) # map Inr rest \<and>
      1 \<le> length rest \<and>
      topic res = lit ''OTHER'' \<and>
      summary res = foldl appendReply (lit ''Sorry, I cannot help.'') rest"
    by (intro exI [of _ res] exI [of _ rest] conjI)
  with c s a o1 o2 show ?thesis by (intro conjI)
qed

theorem C4_chunked_summary_counterexample:
  "\<not> containsMarker (lit ''CATEGORY:'') (lit ''Sorry, I cannot help.'') \<and>
   \<not> containsMarker (lit ''SUMMARY:'') (lit ''Sorry, I cannot help.'') \<and>
   fst (summarizeNewsletter (Inr \<lparr>encode = id, decode = id\<rparr>)
          (\<lambda>i req. Inr (Some (lit ''Sorry, I cannot help.''))) (replicate 15001 97)) =
     Inr \<lparr>topic = lit ''OTHER'',
          summary = lit ''Sorry, I cannot help.'' @ [10] @ lit ''Sorry, I cannot help.''\<rparr> \<and>
   fst (summarizeNewsletter (Inr \<lparr>encode = id, decode = id\<rparr>)
          (\<lambda>i req. Inr (Some (lit ''Sorry, I cannot help.''))) (replicate 15001 97)) \<noteq>
     Inr \<lparr>topic = lit ''OTHER'', summary = lit ''Sorry, I cannot help.''\<rparr>"
proof -
  have c: "\<not> containsMarker (lit ''CATEGORY:'') (lit ''Sorry, I cannot help.'')"
    by (simp add: containsMarker_def lit_def upperUnit_def)
  have s: "\<not> containsMarker (lit ''SUMMARY:'') (lit ''Sorry, I cannot help.'')"
    by (simp add: containsMarker_def lit_def upperUnit_def)
  note parse = no_markers_parse [OF c s]
  have run: "fst (summarizeNewsletter (Inr \<lparr>encode = id, decode = id\<rparr>)
          (\<lambda>i req. Inr (Some (lit ''Sorry, I cannot help.''))) (replicate 15001 97)) =
     Inr \<lparr>topic = lit ''OTHER'',
          summary = lit ''Sorry, I cannot help.'' @ [10] @ lit ''Sorry, I cannot help.''\<rparr>"
    apply (simp add: summarizeNewsletter_def maxTokensPerChunk_def)
    apply (subst chunk_loop.simps, simp add: maxTokensPerChunk_def)
    apply (subst chunk_loop.simps, simp add: maxTokensPerChunk_def)
    apply (subst chunk_loop.simps, simp add: maxTokensPerChunk_def)
    apply (simp add: parse appendReply_def Let_def)
    done
  have "lit ''Sorry, I cannot help.'' @ [10] @ lit ''Sorry, I cannot help.'' \<noteq>
        lit ''Sorry, I cannot help.''"
    by simp
  with run c s show ?thesis by simp
qed

text \<open>
  C1. The topic is the token that follows the marker, in upper case, whether or not it is
  one of \<open>TOPIC_CATEGORIES\<close>: the reply \<^verbatim>\<open>CATEGORY: SPORTS\<close> gives the topic
  \<^verbatim>\<open>SPORTS\<close>, which is no key of the buckets, and the push of that result throws a
  TypeError.
\<close>

theorem C1_unknown_category:
  "fst (processSingleChunk
          (\<lambda>i req. Inr (Some (lit ''CATEGORY: SPORTS'' @ [10] @ lit ''SUMMARY: Game recap.'')))
          (lit ''hi'')) =
     Inr \<lparr>topic = lit ''SPORTS'', summary = lit ''Game recap.''\<rparr> \<and>
   lit ''SPORTS'' \<notin> set TOPIC_CATEGORIES \<and>
   aggregate [(e, \<lparr>topic = lit ''SPORTS'', summary = lit ''Game recap.''\<rparr>)] = Inl TypeError"
proof -
  have t: "topicOf (lit ''CATEGORY: SPORTS'' @ 10 # lit ''SUMMARY: Game recap.'') = lit ''SPORTS''"
    by (simp add: lit_def topicOf_def categoryMatch_def category_at_def isWhiteSpace_def
          isCategoryUnit_def upperUnit_def toUpperCase_def trim_def)
  have s: "summaryOf (lit ''CATEGORY: SPORTS'' @ 10 # lit ''SUMMARY: Game recap.'') = lit ''Game recap.''"
    by (simp add: lit_def summaryOf_def summaryMatch_def summary_at_def isWhiteSpace_def
          upperUnit_def trim_def)
  have 1: "fst (processSingleChunk
          (\<lambda>i req. Inr (Some (lit ''CATEGORY: SPORTS'' @ [10] @ lit ''SUMMARY: Game recap.'')))
          (lit ''hi'')) =
     Inr \<lparr>topic = lit ''SPORTS'', summary = lit ''Game recap.''\<rparr>"
    by (simp add: processSingleChunk_def Let_def t s)
  have 2: "lit ''SPORTS'' \<notin> set TOPIC_CATEGORIES"
    by (simp add: TOPIC_CATEGORIES_def lit_def)
  have 3: "aggregate [(e, \<lparr>topic = lit ''SPORTS'', summary = lit ''Game recap.''\<rparr>)] = Inl TypeError"
    by (simp add: aggregate_def initial_buckets_def push_def TOPIC_CATEGORIES_def lit_def)
  from 1 2 3 show ?thesis by blast
qed

section \<open>Collecting by topic\<close>

text \<open>
  C5. For newsletters whose results all carry one of the known tags, the loop returns
  buckets whose keys are the known tags in their fixed order, and the bucket of each tag
  is exactly the items of the inputs classified to that tag, in the order of the input:
  so its length is the number of those inputs, and their relative order is kept.
\<close>

theorem C5_aggregate:
  assumes "\<forall>p \<in> set newsletters. topic (snd p) \<in> set TOPIC_CATEGORIES"
  shows "\<exists>b. aggregate newsletters = Inr b \<and> map fst b = TOPIC_CATEGORIES \<and>
           (\<forall>t \<in> set TOPIC_CATEGORIES.
              map_of b t = Some (map item_of (filter (\<lambda>p. topic (snd p) = t) newsletters)))"
proof -
  have keys: "map fst initial_buckets = TOPIC_CATEGORIES"
    by (simp add: initial_buckets_def comp_def)
  then have "fst ` set initial_buckets = set TOPIC_CATEGORIES" by (metis list.set_map)
  with assms have "\<forall>p \<in> set newsletters. topic (snd p) \<in> fst ` set initial_buckets" by simp
  from newsletter_loop_known [OF this]
  obtain b where b: "newsletter_loop initial_buckets newsletters = Inr b"
    "map fst b = map fst initial_buckets"
    "\<And>t. map_of b t =
        map_option (\<lambda>v. v @ map item_of (filter (\<lambda>p. topic (snd p) = t) newsletters))
          (map_of initial_buckets t)"
    by blast
  have "map_of initial_buckets t = Some []" if "t \<in> set TOPIC_CATEGORIES" for t
    using that unfolding initial_buckets_def by (rule map_of_empty_buckets)
  with b show ?thesis by (simp add: aggregate_def keys)
qed

theorem C5_aggregate_witness:
  "list_all (\<lambda>p. topic (snd p) \<in> set TOPIC_CATEGORIES) sample_newsletters \<and>
   aggregate sample_newsletters =
     Inr [(lit ''TECH_NEWS'',
           [\<lparr>item_subject = Some (lit ''Chips''), item_from = Some (lit ''A''), item_date = 1,
              item_summary = lit ''New chip.''\<rparr>,
            \<lparr>item_subject = None, item_from = Some (lit ''C''), item_date = 3,
              item_summary = lit ''New phone.''\<rparr>]),
          (lit ''BUSINESS'',
           [\<lparr>item_subject = Some (lit ''Rates''), item_from = Some (lit ''B''), item_date = 2,
              item_summary = lit ''Rates rose.''\<rparr>]),
          (lit ''SECURITY'', []), (lit ''PRODUCT_UPDATES'', []), (lit ''INDUSTRY_NEWS'', []),
          (lit ''EDUCATIONAL'', []), (lit ''OTHER'', [])] \<and>
   (\<exists>b. aggregate sample_newsletters = Inr b \<and> map fst b = TOPIC_CATEGORIES \<and>
      (\<forall>t \<in> set TOPIC_CATEGORIES.
         map_of b t = Some (map item_of (filter (\<lambda>p. topic (snd p) = t) sample_newsletters))))"
proof -
  have h: "\<forall>p \<in> set sample_newsletters. topic (snd p) \<in> set TOPIC_CATEGORIES"
    by (simp add: sample_newsletters_def TOPIC_CATEGORIES_def)
  have v: "aggregate sample_newsletters =
     Inr [(lit ''TECH_NEWS'',
           [\<lparr>item_subject = Some (lit ''Chips''), item_from = Some (lit ''A''), item_date = 1,
              item_summary = lit ''New chip.''\<rparr>,
            \<lparr>item_subject = None, item_from = Some (lit ''C''), item_date = 3,
              item_summary = lit ''New phone.''\<rparr>]),
          (lit ''BUSINESS'',
           [\<lparr>item_subject = Some (lit ''Rates''), item_from = Some (lit ''B''), item_date = 2,
              item_summary = lit ''Rates rose.''\<rparr>]),
          (lit ''SECURITY'', []), (lit ''PRODUCT_UPDATES'', []), (lit ''INDUSTRY_NEWS'', []),
          (lit ''EDUCATIONAL'', []), (lit ''OTHER'', [])]"
    by (simp add: aggregate_def sample_newsletters_def initial_buckets_def push_def
          TOPIC_CATEGORIES_def lit_def)
  from h have "list_all (\<lambda>p. topic (snd p) \<in> set TOPIC_CATEGORIES) sample_newsletters"
    by (simp add: list_all_iff)
  with v C5_aggregate [OF h] show ?thesis by blast
qed

section \<open>The script\<close>

text \<open>
  C6. With one item from the sender \<^verbatim>\<open>A\<close> and the summary
  \<^verbatim>\<open>X happened. Y followed.\<close> under \<^verbatim>\<open>TECH_NEWS\<close> and every other bucket empty, the
  script is the two opening lines, one host transition line, for tech news, two guest
  lines for the item (one for each sentence, with the host's prompt between them), and
  the three closing lines; no other topic has a line.
\<close>

theorem C6_scenario:
  "createSpeechScript timeNow
     [(lit ''TECH_NEWS'',
       [\<lparr>item_subject = sj, item_from = Some (lit ''A''), item_date = d,
         item_summary = lit ''X happened. Y followed.''\<rparr>]),
      (lit ''BUSINESS'', []), (lit ''SECURITY'', []), (lit ''PRODUCT_UPDATES'', []),
      (lit ''INDUSTRY_NEWS'', []), (lit ''EDUCATIONAL'', []), (lit ''OTHER'', [])] =
     [\<lparr>line_speaker = host,
       line_text = lit ''Welcome to your daily newsletter roundup! It's '' @ timeNow
         @ lit '', and I'm here with our expert analyst to break down today's key stories.''\<rparr>,
      \<lparr>line_speaker = guest,
       line_text = lit ''Thanks for having me! I've reviewed all the newsletters, and we've got some interesting developments to discuss.''\<rparr>,
      \<lparr>line_speaker = host,
       line_text = lit ''Let's dive into tech news. What are the key updates in this area?''\<rparr>,
      \<lparr>line_speaker = guest, line_text = lit ''From A, we have X happened.''\<rparr>,
      \<lparr>line_speaker = host,
       line_text = lit ''That's interesting! What else did they mention?''\<rparr>,
      \<lparr>line_speaker = guest, line_text = lit ''Y followed.''\<rparr>,
      \<lparr>line_speaker = host,
       line_text = lit ''That wraps up our newsletter summary for today. Any final thoughts?''\<rparr>,
      \<lparr>line_speaker = guest,
       line_text = lit ''Thanks for breaking this down with me. Remember to check the email summary for more details on any stories that caught your interest.''\<rparr>,
      \<lparr>line_speaker = host,
       line_text = lit ''Thanks for listening, and we'll catch you in the next summary!''\<rparr>]"
proof -
  have a: "lit ''Let's dive into '' @ lit ''tech news'' @ lit ''. What are the key updates in this area?''
           = lit ''Let's dive into tech news. What are the key updates in this area?''"
    by (simp add: lit_def)
  have b: "lit ''From '' @ lit ''A'' @ lit '', we have '' @ lit ''X happened.'' = lit ''From A, we have X happened.''"
    by (simp add: lit_def)
  show ?thesis
    by (simp add: createSpeechScript_def topic_lines_def item_lines_def Let_def enumerate_eq_zip
          split_scenario tech_news_name a b)
qed



text \<open>
  C10. When every bucket is empty the script is five lines: the host's opening, the
  guest's acknowledgment, the host's closing question, the guest's closing remark and the
  host's sign-off.
\<close>

theorem C10_all_empty:
  assumes "\<forall>entry \<in> set summariesByTopic. snd entry = []"
  shows "createSpeechScript timeNow summariesByTopic =
     [\<lparr>line_speaker = host,
       line_text = lit ''Welcome to your daily newsletter roundup! It's '' @ timeNow
         @ lit '', and I'm here with our expert analyst to break down today's key stories.''\<rparr>,
      \<lparr>line_speaker = guest,
       line_text = lit ''Thanks for having me! I've reviewed all the newsletters, and we've got some interesting developments to discuss.''\<rparr>,
      \<lparr>line_speaker = host,
       line_text = lit ''That wraps up our newsletter summary for today. Any final thoughts?''\<rparr>,
      \<lparr>line_speaker = guest,
       line_text = lit ''Thanks for breaking this down with me. Remember to check the email summary for more details on any stories that caught your interest.''\<rparr>,
      \<lparr>line_speaker = host,
       line_text = lit ''Thanks for listening, and we'll catch you in the next summary!''\<rparr>]"
proof -
  from assms have "filter (\<lambda>entry. length (snd entry) > 0) summariesByTopic = []"
    by (simp add: filter_empty_conv)
  then show ?thesis by (simp add: createSpeechScript_def)
qed

theorem C10_all_empty_witness:
  "list_all (\<lambda>entry. snd entry = []) initial_buckets \<and>
   createSpeechScript (lit ''9:00 AM'') initial_buckets =
     [\<lparr>line_speaker = host,
       line_text = lit ''Welcome to your daily newsletter roundup! It's '' @ lit ''9:00 AM''
         @ lit '', and I'm here with our expert analyst to break down today's key stories.''\<rparr>,
      \<lparr>line_speaker = guest,
       line_text = lit ''Thanks for having me! I've reviewed all the newsletters, and we've got some interesting developments to discuss.''\<rparr>,
      \<lparr>line_speaker = host,
       line_text = lit ''That wraps up our newsletter summary for today. Any final thoughts?''\<rparr>,
      \<lparr>line_speaker = guest,
       line_text = lit ''Thanks for breaking this down with me. Remember to check the email summary for more details on any stories that caught your interest.''\<rparr>,
      \<lparr>line_speaker = host,
       line_text = lit ''Thanks for listening, and we'll catch you in the next summary!''\<rparr>]"
proof -
  have h: "\<forall>entry \<in> set initial_buckets. snd entry = []"
    by (auto simp: initial_buckets_def)
  then have "list_all (\<lambda>entry. snd entry = []) initial_buckets"
    by (simp add: list_all_iff)
  with C10_all_empty [OF h, of "lit ''9:00 AM''"] show ?thesis by blast
qed

section \<open>The audio pipeline: segments and clean-up\<close>



text \<open>
  C8. In every run that reaches the muxer: when the muxer succeeds, the result is the path
  of the final audio whatever the removals do, a removal is tried for every segment file
  in order, a warning is given for exactly the files whose removal failed, and every
  segment file whose removal returned is gone; when the muxer fails, its error is the
  result, no removal is tried, the files are as the synthesis left them and every segment
  file is still on disk.
\<close>

theorem C8_clean_up:
  assumes "concat_inputs (snd (snd (generateAudioSummary env timeNow today b files))) \<noteq> []"
  shows "case ffmpeg env (files_after_synthesis env (createSpeechScript timeNow b) files)
                (segment_paths env (length (createSpeechScript timeNow b))) of
           Inr merged \<Rightarrow>
             fst (generateAudioSummary env timeNow today b files) =
               Inr (finalAudioPath_of env today) \<and>
             unlinked (snd (snd (generateAudioSummary env timeNow today b files))) =
               segment_paths env (length (createSpeechScript timeNow b)) \<and>
             warned (snd (snd (generateAudioSummary env timeNow today b files))) =
               filter (\<lambda>p. unlink env p \<noteq> None)
                 (segment_paths env (length (createSpeechScript timeNow b))) \<and>
             fst (snd (generateAudioSummary env timeNow today b files)) =
               (\<lambda>p. if p \<in> set (segment_paths env (length (createSpeechScript timeNow b))) \<and>
                        unlink env p = None
                     then None
                     else ((files_after_synthesis env (createSpeechScript timeNow b) files)
                             (finalAudioPath_of env today \<mapsto> merged)) p)
         | Inl err \<Rightarrow>
             fst (generateAudioSummary env timeNow today b files) = Inl err \<and>
             unlinked (snd (snd (generateAudioSummary env timeNow today b files))) = [] \<and>
             warned (snd (snd (generateAudioSummary env timeNow today b files))) = [] \<and>
             fst (snd (generateAudioSummary env timeNow today b files)) =
               files_after_synthesis env (createSpeechScript timeNow b) files \<and>
             list_all (\<lambda>p. fst (snd (generateAudioSummary env timeNow today b files)) p \<noteq> None)
               (segment_paths env (length (createSpeechScript timeNow b)))"
proof -
  from generate_cases [of env timeNow today b files] assms
  obtain evs1 evs2 where
    ev: "unlinked evs1 = []" "warned evs1 = []"
      "unlinked evs2 = segment_paths env (length (createSpeechScript timeNow b))"
      "warned evs2 = filter (\<lambda>p. unlink env p \<noteq> None)
                     (segment_paths env (length (createSpeechScript timeNow b)))"
    and there: "list_all (\<lambda>p. files_after_synthesis env (createSpeechScript timeNow b) files p \<noteq> None)
       (segment_paths env (length (createSpeechScript timeNow b)))"
    and g: "generateAudioSummary env timeNow today b files =
        mux_and_clean env today (length (createSpeechScript timeNow b))
          (files_after_synthesis env (createSpeechScript timeNow b) files) evs1 evs2"
    by blast
  from ev there show ?thesis
    unfolding g mux_and_clean_def
    by (simp add: events_append split: sum.splits)
qed

theorem C8_clean_up_witness:
  "concat_inputs (snd (snd
       (generateAudioSummary sample_env (lit ''9:00 AM'') (lit ''2024-01-01'')
          initial_buckets Map.empty))) \<noteq> [] \<and>
   concat_inputs (snd (snd
       (generateAudioSummary sample_env_mux_fails (lit ''9:00 AM'') (lit ''2024-01-01'')
          initial_buckets Map.empty))) \<noteq> [] \<and>
   fst (generateAudioSummary sample_env (lit ''9:00 AM'') (lit ''2024-01-01'')
          initial_buckets Map.empty) =
     Inr (lit ''/app/audio/newsletter-summary-2024-01-01.mp3'') \<and>
   unlinked (snd (snd (generateAudioSummary sample_env (lit ''9:00 AM'') (lit ''2024-01-01'')
          initial_buckets Map.empty))) =
     [lit ''/app/audio/segment_0.mp3'', lit ''/app/audio/segment_1.mp3'',
      lit ''/app/audio/segment_2.mp3'', lit ''/app/audio/segment_3.mp3'',
      lit ''/app/audio/segment_4.mp3''] \<and>
   warned (snd (snd (generateAudioSummary sample_env (lit ''9:00 AM'') (lit ''2024-01-01'')
          initial_buckets Map.empty))) = [lit ''/app/audio/segment_1.mp3''] \<and>
   fst (snd (generateAudioSummary sample_env (lit ''9:00 AM'') (lit ''2024-01-01'')
          initial_buckets Map.empty)) (lit ''/app/audio/segment_0.mp3'') = None \<and>
   fst (generateAudioSummary sample_env_mux_fails (lit ''9:00 AM'') (lit ''2024-01-01'')
          initial_buckets Map.empty) = Inl (External 1) \<and>
   unlinked (snd (snd (generateAudioSummary sample_env_mux_fails (lit ''9:00 AM'')
          (lit ''2024-01-01'') initial_buckets Map.empty))) = [] \<and>
   list_all (\<lambda>p. fst (snd (generateAudioSummary sample_env_mux_fails (lit ''9:00 AM'')
          (lit ''2024-01-01'') initial_buckets Map.empty)) p \<noteq> None)
     [lit ''/app/audio/segment_0.mp3'', lit ''/app/audio/segment_1.mp3'',
      lit ''/app/audio/segment_2.mp3'', lit ''/app/audio/segment_3.mp3'',
      lit ''/app/audio/segment_4.mp3'']"
proof -
  define G1 where "G1 = generateAudioSummary sample_env (lit ''9:00 AM'') (lit ''2024-01-01'')
          initial_buckets Map.empty"
  define G2 where "G2 = generateAudioSummary sample_env_mux_fails (lit ''9:00 AM'')
          (lit ''2024-01-01'') initial_buckets Map.empty"
  note h1 = sample_reaches_muxer(1) [of "lit ''9:00 AM''" "lit ''2024-01-01''" initial_buckets
      Map.empty]
  note h2 = sample_reaches_muxer(2) [of "lit ''9:00 AM''" "lit ''2024-01-01''" initial_buckets
      Map.empty]
  have ok: "ffmpeg sample_env fs ps = Inr [7]" for fs ps by (simp add: sample_env_def)
  have bad: "ffmpeg sample_env_mux_fails fs ps = Inl (External 1)" for fs ps
    by (simp add: sample_env_mux_fails_def)
  have fin: "finalAudioPath_of sample_env (lit ''2024-01-01'') =
             lit ''/app/audio/newsletter-summary-2024-01-01.mp3''"
    by (simp add: finalAudioPath_of_def audioDir_of_def path_join_def sample_env_def lit_def)
  have un: "filter (\<lambda>p. unlink sample_env p \<noteq> None) (segment_paths sample_env 5) =
            [lit ''/app/audio/segment_1.mp3'']"
    "unlink sample_env (lit ''/app/audio/segment_0.mp3'') = None"
    unfolding sample_segment_paths by (simp_all add: sample_env_def lit_def)
  have mem: "lit ''/app/audio/segment_0.mp3'' \<in> set (segment_paths sample_env 5)"
    unfolding sample_segment_paths by simp
  note A = C8_clean_up [OF h1, unfolded ok sum.case sample_script_length, folded G1_def]
  note B = C8_clean_up [OF h2, unfolded bad sum.case sample_script_length, folded G2_def]
  from A have a: "fst G1 = Inr (finalAudioPath_of sample_env (lit ''2024-01-01''))"
    "unlinked (snd (snd G1)) = segment_paths sample_env 5"
    "warned (snd (snd G1)) =
       filter (\<lambda>p. unlink sample_env p \<noteq> None) (segment_paths sample_env 5)"
    by blast+
  from A have "fst (snd G1) =
       (\<lambda>p. if p \<in> set (segment_paths sample_env 5) \<and> unlink sample_env p = None
             then None
             else ((files_after_synthesis sample_env
                      (createSpeechScript (lit ''9:00 AM'') initial_buckets) Map.empty)
                     (finalAudioPath_of sample_env (lit ''2024-01-01'') \<mapsto> [7])) p)"
    by blast
  then have gone: "fst (snd G1) (lit ''/app/audio/segment_0.mp3'') = None"
    using mem un(2) by simp
  from B have b: "fst G2 = Inl (External 1)" "unlinked (snd (snd G2)) = []"
    "list_all (\<lambda>p. fst (snd G2) p \<noteq> None) (segment_paths sample_env_mux_fails 5)"
    by blast+
  note a1 = a(1) [unfolded fin] and a2 = a(2) [unfolded sample_segment_paths]
    and a3 = a(3) [unfolded un(1)] and b3 = b(3) [unfolded sample_segment_paths]
  from h1 h2 gone a1 a2 a3 b(1,2) b3 show ?thesis
    unfolding G1_def G2_def by blast
qed

end
